theory Spec2Isabelle
  imports Main
begin

section \<open>Memory model\<close>

text \<open>
  The shell is a C program: its lines, its token array and its tokens are heap objects
  reached through pointers. The heap is a finite collection of blocks (one per
  \<^verbatim>\<open>malloc\<close>), each a list of memory values; a pointer is a block and a
  byte offset into it. A memory value is a plain byte or one byte of a stored pointer
  (the \<open>k\<close>-th byte of a pointer to block \<open>b\<close>, offset \<open>off\<close>), so that the
  byte-wise \<^verbatim>\<open>memset\<close> and the pointer-wise \<^verbatim>\<open>buffer[i] = token\<close>
  act on the same array. A pointer read from bytes that are neither all zero nor a
  stored pointer is \<open>Wild\<close>: it compares unequal to \<open>NULL\<close> and cannot be
  dereferenced.
\<close>

datatype ptr = Null | Ptr nat nat | Wild

datatype memval = Byte char | Frag nat nat nat

datatype fault = BadLoad | BadStore | BadFree

datatype wstatus = WExited nat | WSignaled nat | WStopped nat

datatype syscall = SysFork | SysWaitpid int | SysKill int nat | SysChdir string

definition NUL :: char where
  "NUL = CHR 0x00"

text \<open>\<^verbatim>\<open>sizeof(char*)\<close> on the LP64 platforms the program targets.\<close>

definition sizeof_ptr :: nat where
  "sizeof_ptr = 8"

definition SIGINT :: nat where
  "SIGINT = 2"

text \<open>
  The state of the interpreter process and of the environment it runs in. The program's
  globals are \<open>buffer_size\<close> and \<open>pid\<close>; \<open>strtok_save\<close> is the static pointer
  of \<^verbatim>\<open>strtok\<close>. The environment supplies the bytes of standard input (in the
  chunks in which successive reads of the stream deliver them, an empty chunk being the end
  of the file), the
  contents a fresh \<^verbatim>\<open>malloc\<close> block happens to hold (\<open>junk\<close>), the results of
  \<^verbatim>\<open>fork\<close>, the status reports of \<^verbatim>\<open>waitpid\<close>, the programs
  \<^verbatim>\<open>execvp\<close> can start and the directories \<^verbatim>\<open>chdir\<close> can enter.
\<close>

record shell_state =
  heap :: "nat \<Rightarrow> memval list option"
  next_block :: nat
  junk :: "nat \<Rightarrow> nat \<Rightarrow> memval"
  strtok_save :: ptr
  buffer_size :: nat
  pid :: int
  stdin :: "string list"
  stdout :: string
  stderr :: "string list"
  cwd :: string
  chdir_env :: "string \<Rightarrow> string \<Rightarrow> string option"
  fork_results :: "int list"
  exec_env :: "string \<Rightarrow> bool"
  wait_events :: "wstatus list"
  trace :: "syscall list"

subsection \<open>Allocation\<close>

text \<open>
  \<^verbatim>\<open>malloc(n)\<close> returns a fresh block of \<open>n\<close> bytes of indeterminate content.
  Allocation is taken to succeed (the program never checks for \<open>NULL\<close>).
\<close>

definition malloc :: "nat \<Rightarrow> shell_state \<Rightarrow> ptr \<times> shell_state" where
  "malloc n st =
     (let b = next_block st in
      (Ptr b 0, st\<lparr>heap := (heap st)(b \<mapsto> map (junk st b) [0..<n]), next_block := Suc b\<rparr>))"

definition free :: "ptr \<Rightarrow> shell_state \<Rightarrow> fault + shell_state" where
  "free p st =
     (case p of
        Null \<Rightarrow> Inr st
      | Ptr b off \<Rightarrow>
          (if off = 0 \<and> heap st b \<noteq> None then Inr (st\<lparr>heap := (heap st)(b := None)\<rparr>)
           else Inl BadFree)
      | Wild \<Rightarrow> Inl BadFree)"

subsection \<open>Bytes and C strings\<close>

text \<open>The string that starts at the head of a list of memory values: its bytes up to the
  first NUL. There is none when the block ends, or a pointer fragment is met, first.\<close>

fun cstring_of :: "memval list \<Rightarrow> string option" where
  "cstring_of [] = None"
| "cstring_of (Byte c # ms) =
     (if c = NUL then Some [] else map_option ((#) c) (cstring_of ms))"
| "cstring_of (Frag b off k # ms) = None"

definition load_cstring :: "ptr \<Rightarrow> shell_state \<Rightarrow> fault + string" where
  "load_cstring p st =
     (case p of
        Ptr b off \<Rightarrow>
          (case heap st b of
             None \<Rightarrow> Inl BadLoad
           | Some ms \<Rightarrow>
               (case cstring_of (drop off ms) of
                  None \<Rightarrow> Inl BadLoad
                | Some s \<Rightarrow> Inr s))
      | _ \<Rightarrow> Inl BadLoad)"

definition store_byte :: "ptr \<Rightarrow> char \<Rightarrow> shell_state \<Rightarrow> fault + shell_state" where
  "store_byte p c st =
     (case p of
        Ptr b off \<Rightarrow>
          (case heap st b of
             None \<Rightarrow> Inl BadStore
           | Some ms \<Rightarrow>
               (if off < length ms then Inr (st\<lparr>heap := (heap st)(b \<mapsto> ms[off := Byte c])\<rparr>)
                else Inl BadStore))
      | _ \<Rightarrow> Inl BadStore)"

text \<open>\<^verbatim>\<open>memset(p, c, n)\<close>: \<open>n\<close> bytes, whatever the element type of the array.\<close>

definition memset :: "ptr \<Rightarrow> char \<Rightarrow> nat \<Rightarrow> shell_state \<Rightarrow> fault + shell_state" where
  "memset p c n st =
     (case p of
        Ptr b off \<Rightarrow>
          (case heap st b of
             None \<Rightarrow> Inl BadStore
           | Some ms \<Rightarrow>
               (if off + n \<le> length ms
                then Inr (st\<lparr>heap := (heap st)(b \<mapsto>
                            take off ms @ replicate n (Byte c) @ drop (off + n) ms)\<rparr>)
                else Inl BadStore))
      | _ \<Rightarrow> Inl BadStore)"

subsection \<open>Pointers in memory\<close>

definition encode_ptr :: "ptr \<Rightarrow> memval list option" where
  "encode_ptr p =
     (case p of
        Null \<Rightarrow> Some (replicate sizeof_ptr (Byte NUL))
      | Ptr b off \<Rightarrow> Some (map (Frag b off) [0..<sizeof_ptr])
      | Wild \<Rightarrow> None)"

definition decode_ptr :: "memval list \<Rightarrow> ptr" where
  "decode_ptr ms =
     (if ms = replicate sizeof_ptr (Byte NUL) then Null
      else (case ms of
              Frag b off k # rest \<Rightarrow>
                (if ms = map (Frag b off) [0..<sizeof_ptr] then Ptr b off else Wild)
            | _ \<Rightarrow> Wild))"

text \<open>\<open>load_ptr base i\<close> reads \<^verbatim>\<open>base[i]\<close> of a \<^verbatim>\<open>char **base\<close>;
  \<open>store_ptr base i v\<close> is \<^verbatim>\<open>base[i] = v\<close>. Both fault outside the block.\<close>

definition load_ptr :: "ptr \<Rightarrow> nat \<Rightarrow> shell_state \<Rightarrow> fault + ptr" where
  "load_ptr base i st =
     (case base of
        Ptr b off \<Rightarrow>
          (case heap st b of
             None \<Rightarrow> Inl BadLoad
           | Some ms \<Rightarrow>
               (let at = off + sizeof_ptr * i in
                if at + sizeof_ptr \<le> length ms
                then Inr (decode_ptr (take sizeof_ptr (drop at ms)))
                else Inl BadLoad))
      | _ \<Rightarrow> Inl BadLoad)"

definition store_ptr :: "ptr \<Rightarrow> nat \<Rightarrow> ptr \<Rightarrow> shell_state \<Rightarrow> fault + shell_state" where
  "store_ptr base i v st =
     (case base of
        Ptr b off \<Rightarrow>
          (case heap st b of
             None \<Rightarrow> Inl BadStore
           | Some ms \<Rightarrow>
               (let at = off + sizeof_ptr * i in
                case encode_ptr v of
                  None \<Rightarrow> Inl BadStore
                | Some enc \<Rightarrow>
                    (if at + sizeof_ptr \<le> length ms
                     then Inr (st\<lparr>heap := (heap st)(b \<mapsto>
                                 take at ms @ enc @ drop (at + sizeof_ptr) ms)\<rparr>)
                     else Inl BadStore)))
      | _ \<Rightarrow> Inl BadStore)"

section \<open>The tokenizer\<close>

subsection \<open>Library string functions\<close>

definition strspn :: "string \<Rightarrow> string \<Rightarrow> nat" where
  "strspn s accept = length (takeWhile (\<lambda>c. c \<in> set accept) s)"

definition strcspn :: "string \<Rightarrow> string \<Rightarrow> nat" where
  "strcspn s reject = length (takeWhile (\<lambda>c. c \<notin> set reject) s)"

text \<open>\<^verbatim>\<open>strdup\<close>: a fresh block holding a copy of the string and its terminator.\<close>

definition strdup :: "ptr \<Rightarrow> shell_state \<Rightarrow> fault + (ptr \<times> shell_state)" where
  "strdup s st =
     (case load_cstring s st of
        Inl e \<Rightarrow> Inl e
      | Inr str \<Rightarrow>
          (let b = next_block st in
           Inr (Ptr b 0,
                st\<lparr>heap := (heap st)(b \<mapsto> map Byte str @ [Byte NUL]),
                   next_block := Suc b\<rparr>)))"

text \<open>
  \<^verbatim>\<open>strtok(s, delim)\<close>: continue from the saved position when \<open>s\<close> is
  \<open>NULL\<close>; skip the leading delimiters; at the end of the string there is no token;
  otherwise the token runs to the next delimiter, which is overwritten with NUL, or to the
  end of the string.
\<close>

definition strtok :: "ptr \<Rightarrow> string \<Rightarrow> shell_state \<Rightarrow> fault + (ptr \<times> shell_state)" where
  "strtok s0 delim st =
     (let s = (if s0 = Null then strtok_save st else s0) in
      case s of
        Ptr b off \<Rightarrow>
          (case load_cstring s st of
             Inl e \<Rightarrow> Inl e
           | Inr str \<Rightarrow>
               (let k = strspn str delim; tok = off + k in
                if k = length str then Inr (Null, st\<lparr>strtok_save := Ptr b tok\<rparr>)
                else
                  (let m = strcspn (drop k str) delim; e = tok + m in
                   if k + m = length str then Inr (Ptr b tok, st\<lparr>strtok_save := Ptr b e\<rparr>)
                   else
                     (case store_byte (Ptr b e) NUL st of
                        Inl err \<Rightarrow> Inl err
                      | Inr st1 \<Rightarrow> Inr (Ptr b tok, st1\<lparr>strtok_save := Ptr b (Suc e)\<rparr>)))))
      | _ \<Rightarrow> Inl BadLoad)"

subsection \<open>parseLine\<close>

definition delims :: string where
  "delims = [CHR '' '', CHR 0x0A]"

text \<open>What is left to scan: the bytes of the block of the saved \<^verbatim>\<open>strtok\<close>
  position from that position on.\<close>

definition remaining :: "shell_state \<Rightarrow> nat" where
  "remaining st =
     (case strtok_save st of
        Ptr b off \<Rightarrow> (case heap st b of None \<Rightarrow> 0 | Some ms \<Rightarrow> length ms - off)
      | _ \<Rightarrow> 0)"

text \<open>The loop of \<^verbatim>\<open>parseLine\<close>: store the token at index \<open>i\<close>, ask
  \<^verbatim>\<open>strtok\<close> for the next one, count.\<close>

function tok_loop :: "ptr \<Rightarrow> ptr \<Rightarrow> nat \<Rightarrow> shell_state \<Rightarrow> fault + (nat \<times> shell_state)" where
  "tok_loop buffer token i st =
     (if token \<noteq> Null then
        (case store_ptr buffer i token st of
           Inl e \<Rightarrow> Inl e
         | Inr st1 \<Rightarrow>
             (case strtok Null delims st1 of
                Inl e \<Rightarrow> Inl e
              | Inr (token', st2) \<Rightarrow> tok_loop buffer token' (Suc i) st2))
      else Inr (i, st))"
  by pat_completeness auto
termination
proof (relation "measure (\<lambda>(buffer, token, i, st). if token = Null then 0 else Suc (remaining st))")
  show "wf (measure (\<lambda>(buffer, token, i, st). if token = Null then 0 else Suc (remaining st)))"
    by simp
next
  fix buffer token :: ptr and i :: nat and st st1 :: shell_state and x token' st2
  assume tok: "token \<noteq> Null" and sp: "store_ptr buffer i token st = Inr st1"
    and tk: "strtok Null delims st1 = Inr x" and x: "(token', st2) = x"
  have shorter: "length s < length ms" if "cstring_of ms = Some s" for ms s
    using that
  proof (induction ms arbitrary: s rule: cstring_of.induct)
    case 1
    then show ?case by simp
  next
    case (2 c ms)
    then show ?case by (auto split: if_splits)
  next
    case (3 b off k ms)
    then show ?case by simp
  qed
  have keep: "remaining st1 = remaining st"
    using sp
    by (auto simp: store_ptr_def remaining_def Let_def encode_ptr_def
          split: ptr.splits option.splits if_splits)
  have less: "remaining st2 < remaining st1" if nn: "token' \<noteq> Null"
  proof -
    have run: "strtok Null delims st1 = Inr (token', st2)"
      using tk x by simp
    from run nn obtain b off where sv: "strtok_save st1 = Ptr b off"
      by (cases "strtok_save st1") (auto simp: strtok_def)
    from run sv obtain ms where hp: "heap st1 b = Some ms"
      by (cases "heap st1 b") (auto simp: strtok_def load_cstring_def)
    from run sv hp obtain str where cs: "cstring_of (drop off ms) = Some str"
      by (cases "cstring_of (drop off ms)") (auto simp: strtok_def load_cstring_def)
    from shorter [OF cs] have len: "off + length str < length ms" by simp
    show ?thesis
      using run nn sv hp cs len
      by (auto simp: strtok_def load_cstring_def store_byte_def remaining_def Let_def
            split: if_splits)
  qed
  show "((buffer, token', Suc i, st2), (buffer, token, i, st))
      \<in> measure (\<lambda>(buffer, token, i, st). if token = Null then 0 else Suc (remaining st))"
    using tok keep less by auto
qed

declare tok_loop.simps [simp del]

text \<open>
  \<^verbatim>\<open>parseLine(line, &num_tokens)\<close> returns the token array and the number of
  tokens. The array has \<open>buffer_size / 2\<close> pointer slots; the \<^verbatim>\<open>memset\<close> clears
  \<open>buffer_size / 2\<close> bytes of it.
\<close>

definition parseLine :: "ptr \<Rightarrow> shell_state \<Rightarrow> fault + ((ptr \<times> nat) \<times> shell_state)" where
  "parseLine line st =
     (let (buffer, st1) = malloc (sizeof_ptr * (buffer_size st div 2)) st in
      case memset buffer NUL (buffer_size st div 2) st1 of
        Inl e \<Rightarrow> Inl e
      | Inr st2 \<Rightarrow>
          (case strdup line st2 of
             Inl e \<Rightarrow> Inl e
           | Inr (args, st3) \<Rightarrow>
               (case strtok args delims st3 of
                  Inl e \<Rightarrow> Inl e
                | Inr (token, st4) \<Rightarrow>
                    (case tok_loop buffer token 0 st4 of
                       Inl e \<Rightarrow> Inl e
                     | Inr (i, st5) \<Rightarrow> Inr ((buffer, i), st5)))))"

text \<open>The Token Sequence a caller reads from the array: the strings at its first \<open>n\<close>
  entries.\<close>

fun token_seq :: "ptr \<Rightarrow> nat \<Rightarrow> nat \<Rightarrow> shell_state \<Rightarrow> fault + string list" where
  "token_seq buffer i 0 st = Inr []"
| "token_seq buffer i (Suc n) st =
     (case load_ptr buffer i st of
        Inl e \<Rightarrow> Inl e
      | Inr p \<Rightarrow>
          (case load_cstring p st of
             Inl e \<Rightarrow> Inl e
           | Inr s \<Rightarrow>
               (case token_seq buffer (Suc i) n st of
                  Inl e \<Rightarrow> Inl e
                | Inr ss \<Rightarrow> Inr (s # ss))))"

section \<open>The line reader\<close>

definition newline :: char where
  "newline = CHR 0x0A"

text \<open>The bytes of a chunk of input up to and including its first newline, and the rest.\<close>

definition next_line :: "char list \<Rightarrow> char list \<times> char list" where
  "next_line inp =
     (case dropWhile (\<lambda>c. c \<noteq> newline) inp of
        [] \<Rightarrow> (inp, [])
      | nl # rest \<Rightarrow> (takeWhile (\<lambda>c. c \<noteq> newline) inp @ [nl], rest))"

text \<open>The size of a buffer of \<open>n\<close> bytes once \<^verbatim>\<open>getline\<close> has made room for
  \<open>needed\<close> bytes: when they do not fit, the buffer grows to twice its size, or to the
  size needed if that is more.\<close>

definition grown :: "nat \<Rightarrow> nat \<Rightarrow> nat" where
  "grown n needed = (if needed > n then (if needed < 2 * n then 2 * n else needed) else n)"

text \<open>
  The loop of \<^verbatim>\<open>getline\<close> in the GNU C library. It takes the buffered chunk up to
  its first newline, makes room for the bytes gathered so far, these bytes and a
  terminating NUL, and goes on with the next chunk when the chunk had no newline. It ends
  at a newline or at the end of the file. The result is the line, the size of the buffer,
  and the input that is left.
\<close>

fun getdelim_loop :: "string list \<Rightarrow> string \<Rightarrow> nat \<Rightarrow> string \<times> nat \<times> string list" where
  "getdelim_loop [] line n = (line, n, [])"
| "getdelim_loop (chunk # chunks) line n =
     (if chunk = [] then (line, n, [])
      else
        (let part = fst (next_line chunk);
             rest = snd (next_line chunk);
             needed = length line + length part + 1;
             n' = grown n needed
         in if newline \<in> set chunk
            then (line @ part, n', if rest = [] then chunks else rest # chunks)
            else getdelim_loop chunks (line @ part) n'))"

text \<open>
  \<^verbatim>\<open>getline(&buffer, &buffer_size, stdin)\<close>. At end of input it returns \<open>-1\<close>
  and leaves the buffer and \<open>buffer_size\<close> as they are. Otherwise it stores the line and
  a terminating NUL in the buffer, enlarged as the loop above says, and updates
  \<open>buffer_size\<close>. The enlarged buffer keeps its block.
\<close>

definition getline :: "ptr \<Rightarrow> shell_state \<Rightarrow> fault + (int \<times> shell_state)" where
  "getline lineptr st =
     (case stdin st of
        [] \<Rightarrow> Inr (- 1, st)
      | chunk # chunks \<Rightarrow>
          (if chunk = [] then Inr (- 1, st\<lparr>stdin := []\<rparr>)
           else
             (case lineptr of
                Ptr b off \<Rightarrow>
                  (case heap st b of
                     None \<Rightarrow> Inl BadStore
                   | Some ms \<Rightarrow>
                       (let (line, n', rest) = getdelim_loop (stdin st) [] (buffer_size st);
                            needed = length line + 1;
                            ms1 = (if n' > buffer_size st
                                   then take n' ms @ map (junk st b) [length ms..<n']
                                   else ms)
                        in if off = 0 \<and> needed \<le> length ms1
                           then Inr (int (length line),
                                     st\<lparr>heap := (heap st)(b \<mapsto>
                                          map Byte line @ Byte NUL # drop needed ms1),
                                        buffer_size := n', stdin := rest\<rparr>)
                           else Inl BadStore))
              | _ \<Rightarrow> Inl BadStore)))"

text \<open>\<^verbatim>\<open>readLine\<close> allocates the buffer, calls \<^verbatim>\<open>getline\<close>, drops the
  number of characters read and returns the buffer.\<close>

definition readLine :: "shell_state \<Rightarrow> fault + (ptr \<times> shell_state)" where
  "readLine st =
     (let (buffer, st1) = malloc (buffer_size st) st in
      case getline buffer st1 of
        Inl e \<Rightarrow> Inl e
      | Inr (num_characters_read, st2) \<Rightarrow> Inr (buffer, st2))"

section \<open>Commands\<close>

text \<open>
  How a call ends: it returns a value, the process exits with a status, the process image
  is replaced by another program (with the argument vector that program receives), the
  process faults on a bad memory access, or it blocks forever in \<^verbatim>\<open>waitpid\<close>.
\<close>

datatype 'a result =
    Return 'a shell_state
  | ProcExit int shell_state
  | ExecImage string "string list" shell_state
  | Fault fault
  | Blocked shell_state

definition printf :: "string \<Rightarrow> shell_state \<Rightarrow> shell_state" where
  "printf s st = st\<lparr>stdout := stdout st @ s\<rparr>"

definition perror :: "string \<Rightarrow> shell_state \<Rightarrow> shell_state" where
  "perror s st = st\<lparr>stderr := stderr st @ [s]\<rparr>"

definition prompt :: string where
  "prompt = ''simple-shell> ''"

subsection \<open>Builtins\<close>

definition chdir :: "string \<Rightarrow> shell_state \<Rightarrow> int \<times> shell_state" where
  "chdir path st =
     (let st1 = st\<lparr>trace := trace st @ [SysChdir path]\<rparr> in
      case chdir_env st (cwd st) path of
        None \<Rightarrow> (- 1, st1)
      | Some d \<Rightarrow> (0, st1\<lparr>cwd := d\<rparr>))"

definition simpleShellCd :: "ptr \<Rightarrow> shell_state \<Rightarrow> int result" where
  "simpleShellCd args st =
     (case load_ptr args 1 st of
        Inl e \<Rightarrow> Fault e
      | Inr a1 \<Rightarrow>
          (if a1 \<noteq> Null then
             (case load_cstring a1 st of
                Inl e \<Rightarrow> Fault e
              | Inr path \<Rightarrow>
                  (let (status, st1) = chdir path st in
                   if status = - 1
                   then Return 1 (printf (''cd failed, check your path'' @ [newline]) st1)
                   else Return 1 st1))
           else Return 1 st))"

definition simpleShellHelp :: "ptr \<Rightarrow> shell_state \<Rightarrow> int result" where
  "simpleShellHelp args st =
     Return 1 (printf (''Commands available: cd, help, echo, exit'' @ [newline]) st)"

definition args_room :: "ptr \<Rightarrow> shell_state \<Rightarrow> nat" where
  "args_room args st =
     (case args of
        Ptr b off \<Rightarrow> (case heap st b of None \<Rightarrow> 0 | Some ms \<Rightarrow> length ms)
      | _ \<Rightarrow> 0)"

text \<open>The loop of \<^verbatim>\<open>simpleShellEcho\<close>: print \<^verbatim>\<open>args[i]\<close> and a space while
  \<^verbatim>\<open>args[i]\<close> is not \<open>NULL\<close>.\<close>

function echo_loop :: "ptr \<Rightarrow> nat \<Rightarrow> shell_state \<Rightarrow> fault + shell_state" where
  "echo_loop args i st =
     (case load_ptr args i st of
        Inl e \<Rightarrow> Inl e
      | Inr a \<Rightarrow>
          (if a \<noteq> Null \<and> a \<noteq> Null then
             (case load_cstring a st of
                Inl e \<Rightarrow> Inl e
              | Inr s \<Rightarrow> echo_loop args (Suc i) (printf (s @ '' '') st))
           else Inr st))"
  by pat_completeness auto
termination
proof (relation "measure (\<lambda>(args, i, st). args_room args st - i)")
  show "wf (measure (\<lambda>(args, i, st). args_room args st - i))"
    by simp
next
  fix args a :: ptr and i :: nat and st :: shell_state and s :: string
  assume lp: "load_ptr args i st = Inr a"
  have room: "i < args_room args st"
    using lp
    by (auto simp: load_ptr_def args_room_def Let_def sizeof_ptr_def
          split: ptr.splits option.splits if_splits)
  have same: "args_room args (printf (s @ '' '') st) = args_room args st"
    by (cases args) (simp_all add: args_room_def printf_def)
  show "((args, Suc i, printf (s @ '' '') st), (args, i, st))
      \<in> measure (\<lambda>(args, i, st). args_room args st - i)"
    using room same by simp
qed

declare echo_loop.simps [simp del]

definition simpleShellEcho :: "ptr \<Rightarrow> shell_state \<Rightarrow> int result" where
  "simpleShellEcho args st =
     (case echo_loop args 1 st of
        Inl e \<Rightarrow> Fault e
      | Inr st1 \<Rightarrow> Return 1 (printf [newline] st1))"

definition simpleShellExit :: "ptr \<Rightarrow> shell_state \<Rightarrow> int result" where
  "simpleShellExit args st = Return 0 st"

subsection \<open>External commands\<close>

definition fork :: "shell_state \<Rightarrow> int \<times> shell_state" where
  "fork st =
     (let st1 = st\<lparr>trace := trace st @ [SysFork]\<rparr> in
      case fork_results st of
        [] \<Rightarrow> (- 1, st1)
      | r # rs \<Rightarrow> (r, st1\<lparr>fork_results := rs\<rparr>))"

text \<open>The argument vector a program started on \<^verbatim>\<open>args\<close> receives: the strings at
  its entries up to the first \<open>NULL\<close>.\<close>

function load_argv :: "ptr \<Rightarrow> nat \<Rightarrow> shell_state \<Rightarrow> fault + string list" where
  "load_argv args i st =
     (case load_ptr args i st of
        Inl e \<Rightarrow> Inl e
      | Inr a \<Rightarrow>
          (if a = Null then Inr []
           else
             (case load_cstring a st of
                Inl e \<Rightarrow> Inl e
              | Inr s \<Rightarrow>
                  (case load_argv args (Suc i) st of
                     Inl e \<Rightarrow> Inl e
                   | Inr ss \<Rightarrow> Inr (s # ss)))))"
  by pat_completeness auto
termination
proof (relation "measure (\<lambda>(args, i, st). args_room args st - i)")
  show "wf (measure (\<lambda>(args, i, st). args_room args st - i))"
    by simp
next
  fix args a :: ptr and i :: nat and st :: shell_state and s :: string
  assume lp: "load_ptr args i st = Inr a"
  have room: "i < args_room args st"
    using lp
    by (auto simp: load_ptr_def args_room_def Let_def sizeof_ptr_def
          split: ptr.splits option.splits if_splits)
  have same: "args_room args (printf (s @ '' '') st) = args_room args st"
    by (cases args) (simp_all add: args_room_def printf_def)
  show "((args, Suc i, st), (args, i, st))
      \<in> measure (\<lambda>(args, i, st). args_room args st - i)"
    using room same by simp
qed

declare load_argv.simps [simp del]

text \<open>\<^verbatim>\<open>execvp(file, args)\<close> replaces the process image when the environment can
  start \<open>file\<close>; otherwise it returns \<open>-1\<close>.\<close>

definition execvp :: "ptr \<Rightarrow> ptr \<Rightarrow> shell_state \<Rightarrow> int result" where
  "execvp file args st =
     (case load_cstring file st of
        Inl e \<Rightarrow> Fault e
      | Inr name \<Rightarrow>
          (if exec_env st name then
             (case load_argv args 0 st of
                Inl e \<Rightarrow> Fault e
              | Inr argv \<Rightarrow> ExecImage name argv st)
           else Return (- 1) st))"

fun WIFEXITED :: "wstatus \<Rightarrow> bool" where
  "WIFEXITED (WExited c) = True"
| "WIFEXITED s = False"

fun WIFSIGNALED :: "wstatus \<Rightarrow> bool" where
  "WIFSIGNALED (WSignaled c) = True"
| "WIFSIGNALED s = False"

text \<open>\<^verbatim>\<open>waitpid(p, &child_status, WUNTRACED)\<close> reports the next change of state of
  the child; when the environment has none left, the call never returns.\<close>

definition waitpid :: "int \<Rightarrow> shell_state \<Rightarrow> wstatus result" where
  "waitpid p st =
     (let st1 = st\<lparr>trace := trace st @ [SysWaitpid p]\<rparr> in
      case wait_events st of
        [] \<Rightarrow> Blocked st1
      | s # rest \<Rightarrow> Return s (st1\<lparr>wait_events := rest\<rparr>))"

function wait_loop :: "wstatus \<Rightarrow> shell_state \<Rightarrow> unit result" where
  "wait_loop child_status st =
     (if \<not> WIFEXITED child_status \<and> \<not> WIFSIGNALED child_status then
        (case waitpid (pid st) st of
           Return s st1 \<Rightarrow> wait_loop s st1
         | ProcExit c st1 \<Rightarrow> ProcExit c st1
         | ExecImage f a st1 \<Rightarrow> ExecImage f a st1
         | Fault e \<Rightarrow> Fault e
         | Blocked st1 \<Rightarrow> Blocked st1)
      else Return () st)"
  by pat_completeness auto
termination
  by (relation "measure (\<lambda>(child_status, st). length (wait_events st))")
    (auto simp: waitpid_def Let_def split: list.splits)

declare wait_loop.simps [simp del]

definition startProcess :: "ptr \<Rightarrow> shell_state \<Rightarrow> int result" where
  "startProcess args st =
     (let (r, st0) = fork st; st1 = st0\<lparr>pid := r\<rparr> in
      if pid st1 = 0 then
        (case load_ptr args 0 st1 of
           Inl e \<Rightarrow> Fault e
         | Inr a0 \<Rightarrow>
             (case execvp a0 args st1 of
                Return rc st2 \<Rightarrow>
                  (if rc = - 1 then ProcExit 1 (perror ''simple-shell'' st2)
                   else Return 1 st2)
              | other \<Rightarrow> other))
      else if pid st1 < 0 then ProcExit 1 (perror ''simple-shell'' st1)
      else
        (case waitpid (pid st1) st1 of
           Return child_status st2 \<Rightarrow>
             (case wait_loop child_status st2 of
                Return u st3 \<Rightarrow> Return 1 (st3\<lparr>pid := - 1\<rparr>)
              | ProcExit c st3 \<Rightarrow> ProcExit c st3
              | ExecImage f a st3 \<Rightarrow> ExecImage f a st3
              | Fault e \<Rightarrow> Fault e
              | Blocked st3 \<Rightarrow> Blocked st3)
         | ProcExit c st2 \<Rightarrow> ProcExit c st2
         | ExecImage f a st2 \<Rightarrow> ExecImage f a st2
         | Fault e \<Rightarrow> Fault e
         | Blocked st2 \<Rightarrow> Blocked st2))"

subsection \<open>Dispatch\<close>

definition builtin_commands :: "string list" where
  "builtin_commands = [''cd'', ''help'', ''echo'', ''exit'']"

definition builtin_pointers :: "(ptr \<Rightarrow> shell_state \<Rightarrow> int result) list" where
  "builtin_pointers = [simpleShellCd, simpleShellHelp, simpleShellEcho, simpleShellExit]"

definition num_builtins :: nat where
  "num_builtins = 4"

text \<open>The search of \<^verbatim>\<open>executeCommand\<close>: the first \<open>i < num_builtins\<close>, from
  \<open>i\<close> on, whose name equals \<open>name\<close>.\<close>

function find_builtin :: "string \<Rightarrow> nat \<Rightarrow> nat option" where
  "find_builtin name i =
     (if i < num_builtins then
        (if name = builtin_commands ! i then Some i else find_builtin name (Suc i))
      else None)"
  by pat_completeness auto
termination
  by (relation "measure (\<lambda>(name, i). num_builtins - i)") auto

declare find_builtin.simps [simp del]

definition executeCommand :: "ptr \<Rightarrow> shell_state \<Rightarrow> int result" where
  "executeCommand args st =
     (case load_ptr args 0 st of
        Inl e \<Rightarrow> Fault e
      | Inr a0 \<Rightarrow>
          (if a0 = Null then Return 1 st
           else
             (case load_cstring a0 st of
                Inl e \<Rightarrow> Fault e
              | Inr name \<Rightarrow>
                  (case find_builtin name 0 of
                     Some i \<Rightarrow> (builtin_pointers ! i) args st
                   | None \<Rightarrow> startProcess args st))))"

section \<open>The interrupt handler\<close>

definition kill :: "int \<Rightarrow> nat \<Rightarrow> shell_state \<Rightarrow> shell_state" where
  "kill p sig st = st\<lparr>trace := trace st @ [SysKill p sig]\<rparr>"

definition signalHandler :: "nat \<Rightarrow> shell_state \<Rightarrow> unit result" where
  "signalHandler sig_id st =
     (let st1 = printf (newline # ''simple-shell terminated'' @ [newline]) st;
          st2 = (if pid st1 \<noteq> - 1 then kill (pid st1) SIGINT st1 else st1)
      in ProcExit 0 st2)"

section \<open>The main loop\<close>

text \<open>
  One run of the body of the \<^verbatim>\<open>while (status)\<close> loop per unit of fuel; \<open>None\<close> when
  the fuel runs out with the loop still running. \<open>tokens\<close> is the local variable of
  that name, which keeps its value when no line is parsed.
\<close>

fun loop_body :: "nat \<Rightarrow> int \<Rightarrow> ptr \<Rightarrow> shell_state \<Rightarrow> unit result option" where
  "loop_body fuel status tokens st =
     (if status = 0 then Some (Return () (printf [newline] st))
      else
        (case fuel of
           0 \<Rightarrow> None
         | Suc fuel' \<Rightarrow>
             (case readLine st of
                Inl e \<Rightarrow> Some (Fault e)
              | Inr (line, st1) \<Rightarrow>
                  (case (if line \<noteq> Null then
                           (case parseLine line st1 of
                              Inl e \<Rightarrow> Fault e
                            | Inr ((tokens', num_tokens), st2) \<Rightarrow>
                                (case executeCommand tokens' st2 of
                                   Return status' st3 \<Rightarrow>
                                     Return (status', tokens') (printf prompt st3)
                                 | ProcExit c st3 \<Rightarrow> ProcExit c st3
                                 | ExecImage f a st3 \<Rightarrow> ExecImage f a st3
                                 | Fault e \<Rightarrow> Fault e
                                 | Blocked st3 \<Rightarrow> Blocked st3))
                         else Return (status, tokens) st1) of
                     Return (status', tokens') st4 \<Rightarrow>
                       (case free line st4 of
                          Inl e \<Rightarrow> Some (Fault e)
                        | Inr st5 \<Rightarrow>
                            (case free tokens' st5 of
                               Inl e \<Rightarrow> Some (Fault e)
                             | Inr st6 \<Rightarrow> loop_body fuel' status' tokens' st6))
                   | ProcExit c st4 \<Rightarrow> Some (ProcExit c st4)
                   | ExecImage f a st4 \<Rightarrow> Some (ExecImage f a st4)
                   | Fault e \<Rightarrow> Some (Fault e)
                   | Blocked st4 \<Rightarrow> Some (Blocked st4)))))"

declare loop_body.simps [simp del]

definition mainLoop :: "nat \<Rightarrow> shell_state \<Rightarrow> unit result option" where
  "mainLoop fuel st = loop_body fuel 1 Wild (printf prompt st)"

text \<open>\<^verbatim>\<open>main\<close> returns \<open>0\<close> when the loop returns: the process exits with status
  \<open>0\<close>. Its call \<^verbatim>\<open>signal(SIGINT, signalHandler)\<close> makes \<open>signalHandler\<close> what an
  interrupt runs, in whatever state the process is then.\<close>

definition main :: "nat \<Rightarrow> shell_state \<Rightarrow> unit result option" where
  "main fuel st =
     (case mainLoop fuel st of
        Some (Return u st1) \<Rightarrow> Some (ProcExit 0 st1)
      | other \<Rightarrow> other)"

text \<open>The state the process starts in, for a given environment.\<close>

definition initial_state ::
  "string list \<Rightarrow> (nat \<Rightarrow> nat \<Rightarrow> memval) \<Rightarrow> string \<Rightarrow> (string \<Rightarrow> string \<Rightarrow> string option) \<Rightarrow>
   int list \<Rightarrow> (string \<Rightarrow> bool) \<Rightarrow> wstatus list \<Rightarrow> shell_state" where
  "initial_state inp jnk dir cd_env forks ex_env waits =
     \<lparr>heap = Map.empty, next_block = 0, junk = jnk, strtok_save = Null,
      buffer_size = 80, pid = - 1, stdin = inp, stdout = [], stderr = [],
      cwd = dir, chdir_env = cd_env, fork_results = forks, exec_env = ex_env,
      wait_events = waits, trace = []\<rparr>"

section \<open>The tokenizer of the specification\<close>

text \<open>
  The specification's words for the tokenizer: split the line on whitespace (space and
  newline), discard the empty fields, keep the order.
\<close>

definition is_delim :: "char \<Rightarrow> bool" where
  "is_delim c = (c = CHR '' '' \<or> c = newline)"

fun fields :: "string \<Rightarrow> string list" where
  "fields [] = [[]]"
| "fields (c # cs) =
     (if is_delim c then [] # fields cs
      else (case fields cs of [] \<Rightarrow> [[c]] | f # fs \<Rightarrow> (c # f) # fs))"

definition spec_tokenize :: "string \<Rightarrow> string list" where
  "spec_tokenize line = filter (\<lambda>f. f \<noteq> []) (fields line)"

section \<open>Observations and example states\<close>

text \<open>Lines 101 to 104 of \<^verbatim>\<open>mainLoop\<close>: parse the line, execute the tokens.\<close>

definition execute_line :: "ptr \<Rightarrow> shell_state \<Rightarrow> int result" where
  "execute_line line st =
     (case parseLine line st of
        Inl e \<Rightarrow> Fault e
      | Inr ((tokens, num_tokens), st2) \<Rightarrow> executeCommand tokens st2)"

fun stdout_of :: "'a result \<Rightarrow> string" where
  "stdout_of (Return v st) = stdout st"
| "stdout_of (ProcExit c st) = stdout st"
| "stdout_of (ExecImage f a st) = stdout st"
| "stdout_of (Fault e) = []"
| "stdout_of (Blocked st) = stdout st"

fun exec_argv :: "'a result \<Rightarrow> (string \<times> string list) option" where
  "exec_argv (ExecImage f a st) = Some (f, a)"
| "exec_argv r = None"

text \<open>What \<^verbatim>\<open>echo\<close> writes for the arguments \<open>as\<close>: every argument followed by a
  space.\<close>

definition echo_text :: "string list \<Rightarrow> string" where
  "echo_text as = concat (map (\<lambda>a. a @ '' '') as)"

text \<open>The \<open>i\<close>-th pointer-sized entry of an array of memory values, and the array with
  that entry replaced.\<close>

definition get_cell :: "memval list \<Rightarrow> nat \<Rightarrow> memval list" where
  "get_cell arr i = take sizeof_ptr (drop (sizeof_ptr * i) arr)"

definition set_cell :: "memval list \<Rightarrow> nat \<Rightarrow> memval list \<Rightarrow> memval list" where
  "set_cell arr i enc = take (sizeof_ptr * i) arr @ enc @ drop (sizeof_ptr * i + sizeof_ptr) arr"

text \<open>An environment for concrete runs: fork gives child 42.\<close>

definition demo_env :: shell_state where
  "demo_env = initial_state [] (\<lambda>b i. Byte NUL) ''/'' (\<lambda>d p. None) [42] (\<lambda>f. True) []"

text \<open>The state of the interpreter when block 0 holds the line \<open>l\<close> just read, with
  \<open>buffer_size\<close> \<open>bs\<close> and fresh memory as \<open>jnk\<close> gives it; in it \<^verbatim>\<open>fork\<close>
  returns 0 (the process is the child) and every program can be started.\<close>

definition line_state :: "string \<Rightarrow> nat \<Rightarrow> (nat \<Rightarrow> nat \<Rightarrow> memval) \<Rightarrow> shell_state" where
  "line_state l bs jnk =
     \<lparr>heap = [0 \<mapsto> map Byte l @ [Byte NUL]], next_block = 1, junk = jnk,
      strtok_save = Null, buffer_size = bs, pid = - 1, stdin = [], stdout = [],
      stderr = [], cwd = ''/'', chdir_env = (\<lambda>d p. None), fork_results = [0],
      exec_env = (\<lambda>f. True), wait_events = [], trace = []\<rparr>"

text \<open>Fresh memory full of a non-zero byte.\<close>

definition x_junk :: "nat \<Rightarrow> nat \<Rightarrow> memval" where
  "x_junk b i = Byte (CHR ''x'')"

text \<open>Fresh memory that is zero except for bytes 40 to 47 of block 1, which hold a
  pointer to block 0 left behind by an earlier use of that memory.\<close>

definition stale_junk :: "nat \<Rightarrow> nat \<Rightarrow> memval" where
  "stale_junk b i = (if b = 1 \<and> 40 \<le> i \<and> i < 48 then Frag 0 0 (i - 40) else Byte NUL)"

text \<open>States holding an argument vector of two strings, and of one string, in block 0,
  with the strings in block 1.\<close>

definition two_arg_state :: "string \<Rightarrow> string \<Rightarrow> shell_state" where
  "two_arg_state c a =
     (line_state [] 80 x_junk)
       \<lparr>heap := [0 \<mapsto> map (Frag 1 0) [0..<sizeof_ptr] @
                      map (Frag 1 (Suc (length c))) [0..<sizeof_ptr] @
                      replicate sizeof_ptr (Byte NUL),
                 1 \<mapsto> map Byte c @ Byte NUL # map Byte a @ [Byte NUL]],
        next_block := 2\<rparr>"

definition one_arg_state :: "string \<Rightarrow> shell_state" where
  "one_arg_state c =
     (line_state [] 80 x_junk)
       \<lparr>heap := [0 \<mapsto> map (Frag 1 0) [0..<sizeof_ptr] @ replicate sizeof_ptr (Byte NUL),
                 1 \<mapsto> map Byte c @ [Byte NUL]],
        next_block := 2\<rparr>"

text \<open>Ten one-letter tokens.\<close>

definition ten_tokens :: string where
  "ten_tokens = ''a b c d e f g h i j''"

text \<open>Five tokens.\<close>

definition five_tokens :: string where
  "five_tokens = ''ls a b c d''"

section \<open>Lemmas on fields and tokens\<close>

lemma is_delim_delims: "(c \<in> set delims) = is_delim c"
  by (auto simp: delims_def is_delim_def newline_def)

lemma delims_pred: "(\<lambda>c. c \<in> set delims) = is_delim"
  by (rule ext) (rule is_delim_delims)

lemma not_delims_pred: "(\<lambda>c. c \<notin> set delims) = (\<lambda>c. \<not> is_delim c)"
  by (rule ext) (simp add: is_delim_delims)

lemma fields_split:
  "fields s = takeWhile (\<lambda>c. \<not> is_delim c) s #
     (case dropWhile (\<lambda>c. \<not> is_delim c) s of [] \<Rightarrow> [] | d # r \<Rightarrow> fields r)"
  by (induction s) (auto split: list.splits)

lemma spec_tokenize_delim: "is_delim c \<Longrightarrow> spec_tokenize (c # s) = spec_tokenize s"
  by (simp add: spec_tokenize_def)

lemma spec_tokenize_skip:
  "spec_tokenize s = spec_tokenize (dropWhile is_delim s)"
  by (induction s) (auto simp: spec_tokenize_delim)

lemma spec_tokenize_token:
  assumes "s \<noteq> []" and "\<not> is_delim (hd s)"
  shows "spec_tokenize s =
     takeWhile (\<lambda>c. \<not> is_delim c) s # spec_tokenize (dropWhile (\<lambda>c. \<not> is_delim c) s)"
proof -
  let ?t = "takeWhile (\<lambda>c. \<not> is_delim c) s" and ?r = "dropWhile (\<lambda>c. \<not> is_delim c) s"
  have ne: "?t \<noteq> []"
    using assms by (cases s) auto
  have F: "spec_tokenize s = ?t # filter (\<lambda>f. f \<noteq> []) (case ?r of [] \<Rightarrow> [] | d # r \<Rightarrow> fields r)"
    unfolding spec_tokenize_def using ne by (subst fields_split) simp
  show ?thesis
  proof (cases ?r)
    case Nil
    have "spec_tokenize [] = []" by (simp add: spec_tokenize_def)
    then show ?thesis unfolding F Nil by simp
  next
    case (Cons d r)
    then have "is_delim d"
      using hd_dropWhile [of "\<lambda>c. \<not> is_delim c" s] by auto
    then have "spec_tokenize (d # r) = spec_tokenize r"
      by (rule spec_tokenize_delim)
    then show ?thesis unfolding F Cons by (simp add: spec_tokenize_def)
  qed
qed

lemma spec_tokenize_all_delims:
  assumes "dropWhile is_delim s = []"
  shows "spec_tokenize s = []"
proof -
  have "spec_tokenize s = spec_tokenize []"
    using spec_tokenize_skip [of s] unfolding assms .
  then show ?thesis by (simp add: spec_tokenize_def)
qed

lemma spec_tokenize_Nil [simp]: "spec_tokenize [] = []"
  by (simp add: spec_tokenize_def)

lemma spec_tokenize_count: "2 * length (spec_tokenize s) \<le> length s + 1"
proof (induction "length s" arbitrary: s rule: less_induct)
  case less
  define r1 where "r1 = dropWhile is_delim s"
  define r2 where "r2 = dropWhile (\<lambda>c. \<not> is_delim c) r1"
  have l1: "length r1 \<le> length s"
    by (simp add: r1_def length_dropWhile_le)
  show ?case
  proof (cases "r1 = []")
    case True
    then show ?thesis
      using spec_tokenize_all_delims [of s] by (simp add: r1_def)
  next
    case False
    have hd1: "\<not> is_delim (hd r1)"
      using False hd_dropWhile [of is_delim s] by (simp add: r1_def)
    have sp: "spec_tokenize s = takeWhile (\<lambda>c. \<not> is_delim c) r1 # spec_tokenize r2"
      using spec_tokenize_skip [of s] spec_tokenize_token [OF False hd1]
      by (simp add: r1_def r2_def)
    have l2: "length r2 < length r1"
      using False hd1 unfolding r2_def by (cases r1) (auto simp: length_dropWhile_le le_imp_less_Suc)
    show ?thesis
    proof (cases r2)
      case Nil
      then show ?thesis using sp l1 False by (cases s) auto
    next
      case (Cons d r3)
      have dd: "is_delim d"
        using Cons by (simp add: r2_def dropWhile_eq_Cons_conv)
      have "spec_tokenize r2 = spec_tokenize r3"
        using spec_tokenize_delim [OF dd] Cons by simp
      moreover have "length r3 < length s" using Cons l2 l1 by simp
      moreover have "length r3 + 2 \<le> length s" using Cons l2 l1 by simp
      ultimately show ?thesis
        using less [of r3] sp by simp
    qed
  qed
qed

lemma cap_from_length:
  assumes "length str < bs"
  shows "length (spec_tokenize str) \<le> bs div 2"
  using spec_tokenize_count [of str] assms by linarith

section \<open>Lemmas on memory\<close>

lemma cstring_of_bytes:
  "NUL \<notin> set t \<Longrightarrow> cstring_of (map Byte t @ Byte NUL # xs) = Some t"
  by (induction t) auto

lemma cstring_of_bytes_upto:
  "cstring_of (map Byte l @ Byte NUL # xs) = Some (takeWhile (\<lambda>c. c \<noteq> NUL) l)"
  by (induction l) auto

lemma cstring_of_zeros: "0 < n \<Longrightarrow> cstring_of (map (\<lambda>i. Byte NUL) [0..<n]) = Some []"
  by (simp add: upt_conv_Cons)

lemma cstring_of_append: "cstring_of xs = Some t \<Longrightarrow> cstring_of (xs @ ys) = Some t"
  by (induction xs arbitrary: t rule: cstring_of.induct) (auto split: if_splits)

lemma cstring_of_decomp:
  "cstring_of ms = Some t \<Longrightarrow> NUL \<notin> set t \<and> (\<exists>xs. ms = map Byte t @ Byte NUL # xs)"
  by (induction ms arbitrary: t rule: cstring_of.induct) (auto split: if_splits)

lemma load_cstring_at:
  assumes "heap st ab = Some (pre @ map Byte rest @ Byte NUL # xs)" and "NUL \<notin> set rest"
  shows "load_cstring (Ptr ab (length pre)) st = Inr rest"
  using assms by (simp add: load_cstring_def cstring_of_bytes)

lemma sizeof_ptr_pos: "0 < sizeof_ptr"
  by (simp add: sizeof_ptr_def)

lemma frags_not_zeros: "map (Frag b off) [0..<sizeof_ptr] \<noteq> replicate sizeof_ptr (Byte NUL)"
proof
  assume "map (Frag b off) [0..<sizeof_ptr] = replicate sizeof_ptr (Byte NUL)"
  then have "map (Frag b off) [0..<sizeof_ptr] ! 0 = replicate sizeof_ptr (Byte NUL) ! 0"
    by simp
  then show False
    using sizeof_ptr_pos by simp
qed

lemma decode_frags [simp]: "decode_ptr (map (Frag b off) [0..<sizeof_ptr]) = Ptr b off"
proof -
  have "[0..<sizeof_ptr] = 0 # [1..<sizeof_ptr]"
    using sizeof_ptr_pos by (simp add: upt_rec)
  then obtain r where r: "map (Frag b off) [0..<sizeof_ptr] = Frag b off 0 # r"
    by simp
  show ?thesis
    unfolding decode_ptr_def using r frags_not_zeros [of b off] by simp
qed

lemma decode_zeros [simp]: "decode_ptr (replicate sizeof_ptr (Byte NUL)) = Null"
  by (simp add: decode_ptr_def)

lemma decode_ptr_Null_iff: "(decode_ptr ms = Null) = (ms = replicate sizeof_ptr (Byte NUL))"
  by (auto simp: decode_ptr_def split: list.splits memval.splits)

lemma length_set_cell:
  "length enc = sizeof_ptr \<Longrightarrow> sizeof_ptr * Suc i \<le> length arr \<Longrightarrow>
   length (set_cell arr i enc) = length arr"
  by (simp add: set_cell_def)

lemma get_set_cell:
  "length enc = sizeof_ptr \<Longrightarrow> sizeof_ptr * Suc i \<le> length arr \<Longrightarrow>
   get_cell (set_cell arr i enc) i = enc"
  by (simp add: set_cell_def get_cell_def)

lemma take_set_cell:
  "sizeof_ptr * Suc i \<le> length arr \<Longrightarrow> k \<le> sizeof_ptr * i \<Longrightarrow>
   take k (set_cell arr i enc) = take k arr"
  by (simp add: set_cell_def min_def)

lemma drop_set_cell:
  "length enc = sizeof_ptr \<Longrightarrow> sizeof_ptr * Suc i \<le> length arr \<Longrightarrow>
   sizeof_ptr * Suc i \<le> k \<Longrightarrow> drop k (set_cell arr i enc) = drop k arr"
  by (simp add: set_cell_def)

lemma get_cell_take:
  assumes "take (sizeof_ptr * Suc i) a = take (sizeof_ptr * Suc i) b"
  shows "get_cell a i = get_cell b i"
proof -
  have "get_cell a i = take sizeof_ptr (drop (sizeof_ptr * i) (take (sizeof_ptr * Suc i) a))"
    by (simp add: get_cell_def drop_take)
  also have "\<dots> = take sizeof_ptr (drop (sizeof_ptr * i) (take (sizeof_ptr * Suc i) b))"
    by (simp only: assms)
  also have "\<dots> = get_cell b i"
    by (simp add: get_cell_def drop_take)
  finally show ?thesis .
qed

lemma get_cell_drop:
  assumes "drop a xs = drop a ys" and "a \<le> sizeof_ptr * m"
  shows "get_cell xs m = get_cell ys m"
proof -
  have "drop (sizeof_ptr * m) xs = drop (sizeof_ptr * m - a) (drop a xs)"
    using assms(2) by simp
  also have "\<dots> = drop (sizeof_ptr * m - a) (drop a ys)"
    by (simp only: assms(1))
  also have "\<dots> = drop (sizeof_ptr * m) ys"
    using assms(2) by simp
  finally show ?thesis by (simp add: get_cell_def)
qed

lemma store_ptr_cell:
  assumes "heap st bb = Some arr" and "sizeof_ptr * Suc i \<le> length arr"
  shows "store_ptr (Ptr bb 0) i (Ptr ab s) st =
     Inr (st\<lparr>heap := (heap st)(bb \<mapsto> set_cell arr i (map (Frag ab s) [0..<sizeof_ptr]))\<rparr>)"
  using assms by (simp add: store_ptr_def encode_ptr_def set_cell_def Let_def)

lemma load_ptr_cell:
  assumes "heap st bb = Some arr" and "sizeof_ptr * Suc i \<le> length arr"
  shows "load_ptr (Ptr bb 0) i st = Inr (decode_ptr (get_cell arr i))"
  using assms by (simp add: load_ptr_def get_cell_def Let_def)

lemma load_ptr_heap_cong: "heap st' = heap st \<Longrightarrow> load_ptr args i st' = load_ptr args i st"
  by (cases args) (simp_all add: load_ptr_def)

lemma load_cstring_heap_cong: "heap st' = heap st \<Longrightarrow> load_cstring p st' = load_cstring p st"
  by (cases p) (simp_all add: load_cstring_def)

lemma heap_printf [simp]: "heap (printf s st) = heap st"
  by (simp add: printf_def)

lemma printf_printf: "printf b (printf a st) = printf (a @ b) st"
  by (simp add: printf_def)

lemma printf_Nil [simp]: "printf [] st = st"
  by (simp add: printf_def)

lemma fields_kept:
  assumes "st' = st\<lparr>heap := h, strtok_save := s, next_block := n\<rparr>"
  shows "stdout st' = stdout st" and "fork_results st' = fork_results st"
    and "exec_env st' = exec_env st" and "stdin st' = stdin st" and "junk st' = junk st"
    and "buffer_size st' = buffer_size st" and "pid st' = pid st" and "trace st' = trace st"
    and "cwd st' = cwd st" and "chdir_env st' = chdir_env st"
    and "wait_events st' = wait_events st" and "stderr st' = stderr st"
  using assms by simp_all

section \<open>The scan of strtok and the loop of parseLine\<close>

lemma strtok_scan:
  assumes s: "(if s0 = Null then strtok_save st else s0) = Ptr ab (length pre)"
    and h: "heap st ab = Some (pre @ map Byte rest @ [Byte NUL])"
    and nn: "NUL \<notin> set rest"
  shows "strtok s0 delims st =
    (let ds = takeWhile is_delim rest; r1 = dropWhile is_delim rest in
     if r1 = [] then Inr (Null, st\<lparr>strtok_save := Ptr ab (length pre + length rest)\<rparr>)
     else
       (let t = takeWhile (\<lambda>c. \<not> is_delim c) r1; r2 = dropWhile (\<lambda>c. \<not> is_delim c) r1 in
        if r2 = []
        then Inr (Ptr ab (length pre + length ds),
                  st\<lparr>strtok_save := Ptr ab (length pre + length rest)\<rparr>)
        else Inr (Ptr ab (length pre + length ds),
                  st\<lparr>heap := (heap st)(ab \<mapsto>
                         (pre @ map Byte (ds @ t) @ [Byte NUL]) @ map Byte (tl r2) @ [Byte NUL]),
                     strtok_save := Ptr ab (Suc (length pre + length ds + length t))\<rparr>)))"
proof -
  define ds where "ds = takeWhile is_delim rest"
  define r1 where "r1 = dropWhile is_delim rest"
  define t where "t = takeWhile (\<lambda>c. \<not> is_delim c) r1"
  define r2 where "r2 = dropWhile (\<lambda>c. \<not> is_delim c) r1"
  have rest: "rest = ds @ r1" and r1: "r1 = t @ r2"
    by (simp_all add: ds_def r1_def t_def r2_def)
  have lc: "load_cstring (Ptr ab (length pre)) st = Inr rest"
    using load_cstring_at [of st ab pre rest "[]"] h nn by simp
  have k: "strspn rest delims = length ds"
    by (simp add: strspn_def delims_pred ds_def)
  have dk: "drop (length ds) rest = r1"
    by (simp add: rest)
  have m: "strcspn r1 delims = length t"
    by (simp add: strcspn_def not_delims_pred t_def)
  have e1: "(length ds = length rest) = (r1 = [])"
    by (simp add: rest)
  have e2: "(length ds + length t = length rest) = (r2 = [])"
    by (simp add: rest r1)
  show ?thesis
  proof (cases "r1 = []")
    case True
    then show ?thesis
      using s lc k e1 unfolding strtok_def Let_def ds_def [symmetric] r1_def [symmetric]
      by (simp add: rest)
  next
    case ne1: False
    show ?thesis
    proof (cases "r2 = []")
      case True
      then show ?thesis
        using s lc k m dk e1 e2 ne1
        unfolding strtok_def Let_def ds_def [symmetric] r1_def [symmetric]
          t_def [symmetric] r2_def [symmetric]
        by (simp add: add.assoc)
    next
      case ne2: False
      then obtain d r3 where r2c: "r2 = d # r3" by (cases r2) auto
      have blk: "pre @ map Byte rest @ [Byte NUL] =
          (pre @ map Byte (ds @ t)) @ Byte d # (map Byte r3 @ [Byte NUL])"
        by (simp add: rest r1 r2c)
      have len: "length pre + length ds + length t = length (pre @ map Byte (ds @ t))"
        by simp
      have sb: "store_byte (Ptr ab (length pre + length ds + length t)) NUL st =
          Inr (st\<lparr>heap := (heap st)(ab \<mapsto>
                 (pre @ map Byte (ds @ t) @ [Byte NUL]) @ map Byte (tl r2) @ [Byte NUL])\<rparr>)"
        using h by (simp add: store_byte_def rest r1 r2c list_update_append)
      show ?thesis
        using s lc k m dk e1 e2 ne1 ne2 sb
        unfolding strtok_def Let_def ds_def [symmetric] r1_def [symmetric]
          t_def [symmetric] r2_def [symmetric]
        by (simp add: add.assoc)
    qed
  qed
qed

lemma token_readable:
  assumes "s \<le> length pre"
    and "cstring_of (drop s pre) = Some t \<or> (rest = [] \<and> drop s pre = map Byte t \<and> NUL \<notin> set t)"
    and "heap X ab = Some (pre @ sfx)"
    and "rest = [] \<longrightarrow> sfx = [Byte NUL]"
  shows "load_cstring (Ptr ab s) X = Inr t"
proof -
  have d: "drop s (pre @ sfx) = drop s pre @ sfx"
    using assms(1) by simp
  from assms(2) have "cstring_of (drop s pre @ sfx) = Some t"
  proof
    assume "cstring_of (drop s pre) = Some t"
    then show ?thesis by (rule cstring_of_append)
  next
    assume a: "rest = [] \<and> drop s pre = map Byte t \<and> NUL \<notin> set t"
    then have "sfx = [Byte NUL]" using assms(4) by simp
    then show ?thesis using a cstring_of_bytes [of t "[]"] by simp
  qed
  then show ?thesis
    using assms(3) d by (simp add: load_cstring_def)
qed

lemma tok_loop_inv:
  assumes "bb \<noteq> ab"
    and "heap st ab = Some (pre @ map Byte rest @ [Byte NUL])"
    and "NUL \<notin> set rest"
    and "strtok_save st = Ptr ab (length pre)"
    and "heap st bb = Some arr"
    and "sizeof_ptr * (Suc i + length (spec_tokenize rest)) \<le> length arr"
    and "s \<le> length pre"
    and "cstring_of (drop s pre) = Some t \<or> (rest = [] \<and> drop s pre = map Byte t \<and> NUL \<notin> set t)"
  shows "\<exists>st' arr' sfx.
      tok_loop (Ptr bb 0) (Ptr ab s) i st = Inr (Suc i + length (spec_tokenize rest), st')
    \<and> heap st' bb = Some arr' \<and> length arr' = length arr
    \<and> take (sizeof_ptr * i) arr' = take (sizeof_ptr * i) arr
    \<and> drop (sizeof_ptr * (Suc i + length (spec_tokenize rest))) arr' =
        drop (sizeof_ptr * (Suc i + length (spec_tokenize rest))) arr
    \<and> heap st' ab = Some (pre @ sfx) \<and> (rest = [] \<longrightarrow> sfx = [Byte NUL])
    \<and> (\<forall>b. b \<noteq> bb \<and> b \<noteq> ab \<longrightarrow> heap st' b = heap st b)
    \<and> st' = st\<lparr>heap := heap st', strtok_save := strtok_save st'\<rparr>
    \<and> token_seq (Ptr bb 0) i (Suc (length (spec_tokenize rest))) st' = Inr (t # spec_tokenize rest)"
  using assms
proof (induction "length rest" arbitrary: rest pre s t i st arr rule: less_induct)
  case less
  note ne = less.prems(1) and hab = less.prems(2) and nn = less.prems(3) and sv = less.prems(4)
    and hbb = less.prems(5) and cap = less.prems(6) and sle = less.prems(7) and tc = less.prems(8)
  let ?fr = "map (Frag ab s) [0..<sizeof_ptr]"
  define arr1 where "arr1 = set_cell arr i ?fr"
  define st1 where "st1 = st\<lparr>heap := (heap st)(bb \<mapsto> arr1)\<rparr>"
  define ds where "ds = takeWhile is_delim rest"
  define r1 where "r1 = dropWhile is_delim rest"
  define t1 where "t1 = takeWhile (\<lambda>c. \<not> is_delim c) r1"
  define r2 where "r2 = dropWhile (\<lambda>c. \<not> is_delim c) r1"
  have rest: "rest = ds @ r1" and r1: "r1 = t1 @ r2"
    by (simp_all add: ds_def r1_def t1_def r2_def)
  have celli: "sizeof_ptr * Suc i \<le> length arr"
    using cap by (simp add: algebra_simps) 
  have len1: "length arr1 = length arr"
    unfolding arr1_def using celli by (simp add: length_set_cell)
  have cell1: "get_cell arr1 i = ?fr"
    unfolding arr1_def using celli by (simp add: get_set_cell)
  have take1: "take (sizeof_ptr * i) arr1 = take (sizeof_ptr * i) arr"
    unfolding arr1_def using celli by (simp add: take_set_cell)
  have drop1: "\<And>k. sizeof_ptr * Suc i \<le> k \<Longrightarrow> drop k arr1 = drop k arr"
    unfolding arr1_def using celli by (simp add: drop_set_cell)
  have sp: "store_ptr (Ptr bb 0) i (Ptr ab s) st = Inr st1"
    unfolding st1_def arr1_def using hbb celli by (rule store_ptr_cell)
  have unf: "tok_loop (Ptr bb 0) (Ptr ab s) i st =
      (case strtok Null delims st1 of Inl e \<Rightarrow> Inl e
       | Inr (token', st2) \<Rightarrow> tok_loop (Ptr bb 0) token' (Suc i) st2)"
    by (subst tok_loop.simps) (simp add: sp)
  have hab1: "heap st1 ab = Some (pre @ map Byte rest @ [Byte NUL])"
    using hab ne by (simp add: st1_def)
  have sv1: "(if Null = Null then strtok_save st1 else Null) = Ptr ab (length pre)"
    using sv by (simp add: st1_def)
  note scan = strtok_scan [OF sv1 hab1 nn, unfolded Let_def, folded ds_def r1_def,
      folded t1_def r2_def]
  have cur: "\<And>X sfx. heap X ab = Some (pre @ sfx) \<Longrightarrow> (rest = [] \<longrightarrow> sfx = [Byte NUL]) \<Longrightarrow>
      load_cstring (Ptr ab s) X = Inr t"
    using token_readable [OF sle tc] by blast
  have step: "\<exists>st' arr' sfx.
      tok_loop (Ptr bb 0) (Ptr ab s) i st = Inr (Suc i + length (spec_tokenize rest), st')
    \<and> heap st' bb = Some arr' \<and> length arr' = length arr
    \<and> take (sizeof_ptr * i) arr' = take (sizeof_ptr * i) arr
    \<and> drop (sizeof_ptr * (Suc i + length (spec_tokenize rest))) arr' =
        drop (sizeof_ptr * (Suc i + length (spec_tokenize rest))) arr
    \<and> heap st' ab = Some (pre @ sfx) \<and> (rest = [] \<longrightarrow> sfx = [Byte NUL])
    \<and> (\<forall>b. b \<noteq> bb \<and> b \<noteq> ab \<longrightarrow> heap st' b = heap st b)
    \<and> st' = st\<lparr>heap := heap st', strtok_save := strtok_save st'\<rparr>
    \<and> token_seq (Ptr bb 0) i (Suc (length (spec_tokenize rest))) st' = Inr (t # spec_tokenize rest)"
    if tk: "strtok Null delims st1 = Inr (Ptr ab (length pre + length ds), st2)"
      and h2: "heap st2 ab = Some ((pre @ x) @ map Byte rest' @ [Byte NUL])"
      and sv2: "strtok_save st2 = Ptr ab (length (pre @ x))"
      and b2: "heap st2 bb = Some arr1"
      and o2: "\<forall>b. b \<noteq> bb \<and> b \<noteq> ab \<longrightarrow> heap st2 b = heap st b"
      and e2: "st2 = st\<lparr>heap := heap st2, strtok_save := strtok_save st2\<rparr>"
      and shorter: "length rest' < length rest"
      and nn2: "NUL \<notin> set rest'"
      and spec: "spec_tokenize rest = t1 # spec_tokenize rest'"
      and s2: "length pre + length ds \<le> length (pre @ x)"
      and tc2: "cstring_of (drop (length pre + length ds) (pre @ x)) = Some t1 \<or>
          (rest' = [] \<and> drop (length pre + length ds) (pre @ x) = map Byte t1 \<and> NUL \<notin> set t1)"
      and rne: "rest \<noteq> []"
    for st2 x rest'
  proof -
    have cap2: "sizeof_ptr * (Suc (Suc i) + length (spec_tokenize rest')) \<le> length arr1"
      using cap by (simp add: spec len1)
    from less.hyps [OF shorter ne h2 nn2 sv2 b2 cap2 s2 tc2]
    obtain st' arr' sfx' where
      run: "tok_loop (Ptr bb 0) (Ptr ab (length pre + length ds)) (Suc i) st2 =
          Inr (Suc (Suc i) + length (spec_tokenize rest'), st')"
      and hb': "heap st' bb = Some arr'" and len': "length arr' = length arr1"
      and take': "take (sizeof_ptr * Suc i) arr' = take (sizeof_ptr * Suc i) arr1"
      and drop': "drop (sizeof_ptr * (Suc (Suc i) + length (spec_tokenize rest'))) arr' =
          drop (sizeof_ptr * (Suc (Suc i) + length (spec_tokenize rest'))) arr1"
      and ha': "heap st' ab = Some ((pre @ x) @ sfx')"
      and o': "\<forall>b. b \<noteq> bb \<and> b \<noteq> ab \<longrightarrow> heap st' b = heap st2 b"
      and e': "st' = st2\<lparr>heap := heap st', strtok_save := strtok_save st'\<rparr>"
      and ts': "token_seq (Ptr bb 0) (Suc i) (Suc (length (spec_tokenize rest'))) st' =
          Inr (t1 # spec_tokenize rest')"
      by blast
    have n: "Suc i + length (spec_tokenize rest) = Suc (Suc i) + length (spec_tokenize rest')"
      by (simp add: spec)
    have A: "tok_loop (Ptr bb 0) (Ptr ab s) i st = Inr (Suc i + length (spec_tokenize rest), st')"
      unfolding unf tk n using run by simp
    have B: "take (sizeof_ptr * i) arr' = take (sizeof_ptr * i) arr"
    proof -
      have "take (sizeof_ptr * i) arr' = take (sizeof_ptr * i) (take (sizeof_ptr * Suc i) arr')"
        by (simp add: min_def)
      also have "\<dots> = take (sizeof_ptr * i) (take (sizeof_ptr * Suc i) arr1)"
        by (simp only: take')
      also have "\<dots> = take (sizeof_ptr * i) arr1"
        by (simp add: min_def)
      finally show ?thesis using take1 by simp
    qed
    have C: "drop (sizeof_ptr * (Suc i + length (spec_tokenize rest))) arr' =
        drop (sizeof_ptr * (Suc i + length (spec_tokenize rest))) arr"
    proof -
      have "sizeof_ptr * Suc i \<le> sizeof_ptr * (Suc (Suc i) + length (spec_tokenize rest'))"
        by (rule mult_le_mono2) simp
      from drop1 [OF this] show ?thesis
        unfolding n using drop' by simp
    qed
    have D: "heap st' ab = Some (pre @ (x @ sfx'))"
      using ha' by simp
    have E: "\<forall>b. b \<noteq> bb \<and> b \<noteq> ab \<longrightarrow> heap st' b = heap st b"
      using o' o2 by simp
    have F: "st' = st\<lparr>heap := heap st', strtok_save := strtok_save st'\<rparr>"
      by (subst e', subst e2) simp
    have lp: "load_ptr (Ptr bb 0) i st' = Inr (Ptr ab s)"
    proof -
      have "get_cell arr' i = get_cell arr1 i"
        using take' by (rule get_cell_take)
      then show ?thesis
        using load_ptr_cell [OF hb', of i] celli len' len1 cell1 by simp
    qed
    have lc: "load_cstring (Ptr ab s) st' = Inr t"
      using cur [OF D] rne by simp
    have G: "token_seq (Ptr bb 0) i (Suc (length (spec_tokenize rest))) st' =
        Inr (t # spec_tokenize rest)"
      using lp lc ts' by (simp add: spec)
    show ?thesis
      using A hb' len' len1 B C D E F G rne by auto
  qed
  show ?case
  proof (cases "r1 = []")
    case True
    define st2 where "st2 = st1\<lparr>strtok_save := Ptr ab (length pre + length rest)\<rparr>"
    have tk: "strtok Null delims st1 = Inr (Null, st2)"
      using scan True by (simp add: st2_def)
    have spec: "spec_tokenize rest = []"
      using True spec_tokenize_all_delims [of rest] by (simp add: r1_def)
    have A: "tok_loop (Ptr bb 0) (Ptr ab s) i st = Inr (Suc i + length (spec_tokenize rest), st2)"
      unfolding unf tk by (simp add: spec tok_loop.simps)
    have hb2: "heap st2 bb = Some arr1"
      by (simp add: st2_def st1_def)
    have ha2: "heap st2 ab = Some (pre @ (map Byte rest @ [Byte NUL]))"
      using hab1 by (simp add: st2_def)
    have lp: "load_ptr (Ptr bb 0) i st2 = Inr (Ptr ab s)"
      using load_ptr_cell [OF hb2, of i] celli len1 cell1 by simp
    have lc: "load_cstring (Ptr ab s) st2 = Inr t"
      using cur [OF ha2] by simp
    have G: "token_seq (Ptr bb 0) i (Suc (length (spec_tokenize rest))) st2 =
        Inr (t # spec_tokenize rest)"
      using lp lc by (simp add: spec)
    have E: "\<forall>b. b \<noteq> bb \<and> b \<noteq> ab \<longrightarrow> heap st2 b = heap st b"
      by (simp add: st2_def st1_def)
    have F: "st2 = st\<lparr>heap := heap st2, strtok_save := strtok_save st2\<rparr>"
      by (simp add: st2_def st1_def)
    have C: "drop (sizeof_ptr * (Suc i + length (spec_tokenize rest))) arr1 =
        drop (sizeof_ptr * (Suc i + length (spec_tokenize rest))) arr"
      using drop1 [of "sizeof_ptr * Suc i"] by (simp add: spec)
    show ?thesis
      using A hb2 len1 take1 C ha2 E F G by auto
  next
    case ne1: False
    then have rne: "rest \<noteq> []"
      by (auto simp: r1_def)
    have hd1: "\<not> is_delim (hd r1)"
      using ne1 hd_dropWhile [of is_delim rest] by (simp add: r1_def)
    have sp1: "spec_tokenize rest = t1 # spec_tokenize r2"
      using spec_tokenize_skip [of rest] spec_tokenize_token [OF ne1 hd1]
      by (simp add: r1_def t1_def r2_def)
    have nn1: "NUL \<notin> set t1" "NUL \<notin> set r2"
      using nn rest r1 by auto
    show ?thesis
    proof (cases "r2 = []")
      case True
      define st2 where "st2 = st1\<lparr>strtok_save := Ptr ab (length pre + length rest)\<rparr>"
      have tk: "strtok Null delims st1 = Inr (Ptr ab (length pre + length ds), st2)"
        using scan ne1 True by (simp add: st2_def)
      show ?thesis
      proof (rule step [of st2 "map Byte rest" "[]"])
        show "strtok Null delims st1 = Inr (Ptr ab (length pre + length ds), st2)" by (rule tk)
        show "heap st2 ab = Some ((pre @ map Byte rest) @ map Byte [] @ [Byte NUL])"
          using hab1 by (simp add: st2_def)
        show "strtok_save st2 = Ptr ab (length (pre @ map Byte rest))"
          by (simp add: st2_def)
        show "heap st2 bb = Some arr1" by (simp add: st2_def st1_def)
        show "\<forall>b. b \<noteq> bb \<and> b \<noteq> ab \<longrightarrow> heap st2 b = heap st b"
          by (simp add: st2_def st1_def)
        show "st2 = st\<lparr>heap := heap st2, strtok_save := strtok_save st2\<rparr>"
          by (simp add: st2_def st1_def)
        show "length [] < length rest" using rne by simp
        show "NUL \<notin> set []" by simp
        show "spec_tokenize rest = t1 # spec_tokenize []" using sp1 True by simp
        show "length pre + length ds \<le> length (pre @ map Byte rest)" by (simp add: rest)
        show "cstring_of (drop (length pre + length ds) (pre @ map Byte rest)) = Some t1 \<or>
          ([] = [] \<and> drop (length pre + length ds) (pre @ map Byte rest) = map Byte t1 \<and> NUL \<notin> set t1)"
          using nn1 True by (simp add: rest r1)
        show "rest \<noteq> []" by (rule rne)
      qed
    next
      case ne2: False
      then obtain d r3 where r2c: "r2 = d # r3" by (cases r2) auto
      have dd: "is_delim d"
        using hd_dropWhile [of "\<lambda>c. \<not> is_delim c" r1] ne2 r2c by (simp add: r2_def)
      define st2 where "st2 = st1\<lparr>heap := (heap st1)(ab \<mapsto>
           (pre @ map Byte (ds @ t1) @ [Byte NUL]) @ map Byte (tl r2) @ [Byte NUL]),
         strtok_save := Ptr ab (Suc (length pre + length ds + length t1))\<rparr>"
      have tk: "strtok Null delims st1 = Inr (Ptr ab (length pre + length ds), st2)"
        using scan ne1 ne2 by (simp add: st2_def)
      show ?thesis
      proof (rule step [of st2 "map Byte (ds @ t1) @ [Byte NUL]" r3])
        show "strtok Null delims st1 = Inr (Ptr ab (length pre + length ds), st2)" by (rule tk)
        show "heap st2 ab = Some ((pre @ map Byte (ds @ t1) @ [Byte NUL]) @ map Byte r3 @ [Byte NUL])"
          by (simp add: st2_def r2c)
        show "strtok_save st2 = Ptr ab (length (pre @ map Byte (ds @ t1) @ [Byte NUL]))"
          by (simp add: st2_def)
        show "heap st2 bb = Some arr1" using ne by (simp add: st2_def st1_def)
        show "\<forall>b. b \<noteq> bb \<and> b \<noteq> ab \<longrightarrow> heap st2 b = heap st b"
          by (simp add: st2_def st1_def)
        show "st2 = st\<lparr>heap := heap st2, strtok_save := strtok_save st2\<rparr>"
          by (simp add: st2_def st1_def)
        show "length r3 < length rest" by (simp add: rest r1 r2c)
        show "NUL \<notin> set r3" using nn1 r2c by simp
        show "spec_tokenize rest = t1 # spec_tokenize r3"
          using sp1 spec_tokenize_delim [OF dd, of r3] by (simp add: r2c)
        show "length pre + length ds \<le> length (pre @ map Byte (ds @ t1) @ [Byte NUL])" by simp
        show "cstring_of (drop (length pre + length ds) (pre @ map Byte (ds @ t1) @ [Byte NUL])) = Some t1 \<or>
          (r3 = [] \<and> drop (length pre + length ds) (pre @ map Byte (ds @ t1) @ [Byte NUL]) = map Byte t1 \<and> NUL \<notin> set t1)"
          using nn1 cstring_of_bytes [of t1 "[]"] by simp
        show "rest \<noteq> []" by (rule rne)
      qed
    qed
  qed
qed

lemma parseLine_correct:
  assumes ln: "line = Ptr lb off" and lb: "lb < next_block st"
    and str: "load_cstring line st = Inr str"
    and cap: "length (spec_tokenize str) \<le> buffer_size st div 2"
  shows "\<exists>st' arr' sfx.
      parseLine line st = Inr ((Ptr (next_block st) 0, length (spec_tokenize str)), st')
    \<and> token_seq (Ptr (next_block st) 0) 0 (length (spec_tokenize str)) st' = Inr (spec_tokenize str)
    \<and> heap st' (next_block st) = Some arr'
    \<and> length arr' = sizeof_ptr * (buffer_size st div 2)
    \<and> drop (sizeof_ptr * length (spec_tokenize str)) arr' =
        drop (sizeof_ptr * length (spec_tokenize str))
          (replicate (buffer_size st div 2) (Byte NUL) @
           drop (buffer_size st div 2)
             (map (junk st (next_block st)) [0..<sizeof_ptr * (buffer_size st div 2)]))
    \<and> heap st' (Suc (next_block st)) = Some sfx
    \<and> (\<forall>b. b \<noteq> next_block st \<and> b \<noteq> Suc (next_block st) \<longrightarrow> heap st' b = heap st b)
    \<and> st' = st\<lparr>heap := heap st', strtok_save := strtok_save st',
               next_block := Suc (Suc (next_block st))\<rparr>"
proof -
  define bb where "bb = next_block st"
  define ab where "ab = Suc bb"
  define h where "h = buffer_size st div 2"
  define arr0 where "arr0 = replicate h (Byte NUL) @
      drop h (map (junk st bb) [0..<sizeof_ptr * h])"
  define st1 where "st1 = st\<lparr>heap := (heap st)(bb \<mapsto> map (junk st bb) [0..<sizeof_ptr * h]),
      next_block := Suc bb\<rparr>"
  define st2 where "st2 = st1\<lparr>heap := (heap st1)(bb \<mapsto> arr0)\<rparr>"
  define st3 where "st3 = st2\<lparr>heap := (heap st2)(ab \<mapsto> map Byte str @ [Byte NUL]),
      next_block := Suc ab\<rparr>"
  define ds where "ds = takeWhile is_delim str"
  define r1 where "r1 = dropWhile is_delim str"
  define t1 where "t1 = takeWhile (\<lambda>c. \<not> is_delim c) r1"
  define r2 where "r2 = dropWhile (\<lambda>c. \<not> is_delim c) r1"
  have rest: "str = ds @ r1" and r1: "r1 = t1 @ r2"
    by (simp_all add: ds_def r1_def t1_def r2_def)
  have ne: "bb \<noteq> ab" "lb \<noteq> bb" "lb \<noteq> ab"
    using lb by (simp_all add: ab_def bb_def)
  have hle: "h \<le> sizeof_ptr * h"
    using sizeof_ptr_pos by simp
  have len0: "length arr0 = sizeof_ptr * h"
    using hle by (simp add: arr0_def)
  have m: "malloc (sizeof_ptr * (buffer_size st div 2)) st = (Ptr bb 0, st1)"
    by (simp add: malloc_def st1_def bb_def h_def Let_def)
  have ms: "memset (Ptr bb 0) NUL (buffer_size st div 2) st1 = Inr st2"
    using hle by (simp add: memset_def st1_def st2_def arr0_def h_def)
  have ls: "load_cstring line st2 = Inr str"
    using str ne by (simp add: load_cstring_def ln st2_def st1_def)
  have sd: "strdup line st2 = Inr (Ptr ab 0, st3)"
    using ls by (simp add: strdup_def st3_def Let_def ab_def st2_def st1_def)
  have nn: "NUL \<notin> set str"
  proof -
    from str obtain ms where "cstring_of ms = Some str"
      by (auto simp: load_cstring_def ln split: option.splits)
    then show ?thesis using cstring_of_decomp by blast
  qed
  have nn1: "NUL \<notin> set t1" "NUL \<notin> set r2"
    using nn rest r1 by auto
  have hab3: "heap st3 ab = Some ([] @ map Byte str @ [Byte NUL])"
    by (simp add: st3_def)
  have hbb3: "heap st3 bb = Some arr0"
    using ne by (simp add: st3_def st2_def)
  have sv3: "(if Ptr ab 0 = Null then strtok_save st3 else Ptr ab 0) = Ptr ab (length ([]::memval list))"
    by simp
  note scan = strtok_scan [OF sv3 hab3 nn, unfolded Let_def, folded ds_def r1_def,
      folded t1_def r2_def]
  have unf: "parseLine line st =
      (case strtok (Ptr ab 0) delims st3 of Inl e \<Rightarrow> Inl e
       | Inr (token, st4) \<Rightarrow>
           (case tok_loop (Ptr bb 0) token 0 st4 of Inl e \<Rightarrow> Inl e
            | Inr (i, st5) \<Rightarrow> Inr ((Ptr bb 0, i), st5)))"
    by (simp add: parseLine_def m ms sd)
  have o3: "\<forall>b. b \<noteq> bb \<and> b \<noteq> ab \<longrightarrow> heap st3 b = heap st b"
    by (simp add: st3_def st2_def st1_def)
  have e3: "st3 = st\<lparr>heap := heap st3, strtok_save := strtok_save st, next_block := Suc (Suc bb)\<rparr>"
    by (simp add: st3_def st2_def st1_def ab_def)
  have step: "\<exists>st' arr' sfx.
      parseLine line st = Inr ((Ptr bb 0, length (spec_tokenize str)), st')
    \<and> token_seq (Ptr bb 0) 0 (length (spec_tokenize str)) st' = Inr (spec_tokenize str)
    \<and> heap st' bb = Some arr' \<and> length arr' = sizeof_ptr * h
    \<and> drop (sizeof_ptr * length (spec_tokenize str)) arr' =
        drop (sizeof_ptr * length (spec_tokenize str)) arr0
    \<and> heap st' ab = Some sfx
    \<and> (\<forall>b. b \<noteq> bb \<and> b \<noteq> ab \<longrightarrow> heap st' b = heap st b)
    \<and> st' = st\<lparr>heap := heap st', strtok_save := strtok_save st', next_block := Suc (Suc bb)\<rparr>"
    if tk: "strtok (Ptr ab 0) delims st3 = Inr (Ptr ab (length ds), st4)"
      and h4: "heap st4 ab = Some (x @ map Byte rest' @ [Byte NUL])"
      and sv4: "strtok_save st4 = Ptr ab (length x)"
      and b4: "heap st4 bb = Some arr0"
      and o4: "\<forall>b. b \<noteq> bb \<and> b \<noteq> ab \<longrightarrow> heap st4 b = heap st b"
      and e4: "st4 = st\<lparr>heap := heap st4, strtok_save := strtok_save st4, next_block := Suc (Suc bb)\<rparr>"
      and nn4: "NUL \<notin> set rest'"
      and spec: "spec_tokenize str = t1 # spec_tokenize rest'"
      and s4: "length ds \<le> length x"
      and tc4: "cstring_of (drop (length ds) x) = Some t1 \<or>
          (rest' = [] \<and> drop (length ds) x = map Byte t1 \<and> NUL \<notin> set t1)"
    for st4 x rest'
  proof -
    have cap4: "sizeof_ptr * (Suc 0 + length (spec_tokenize rest')) \<le> length arr0"
    proof -
      have "sizeof_ptr * Suc (length (spec_tokenize rest')) \<le> sizeof_ptr * (buffer_size st div 2)"
        using cap unfolding spec by (intro mult_le_mono2) simp
      then show ?thesis by (simp add: len0 h_def)
    qed
    from tok_loop_inv [OF ne(1) h4 nn4 sv4 b4 cap4 s4 tc4]
    obtain st' arr' sfx' where
      run: "tok_loop (Ptr bb 0) (Ptr ab (length ds)) 0 st4 =
          Inr (Suc 0 + length (spec_tokenize rest'), st')"
      and hb': "heap st' bb = Some arr'" and len': "length arr' = length arr0"
      and drop': "drop (sizeof_ptr * (Suc 0 + length (spec_tokenize rest'))) arr' =
          drop (sizeof_ptr * (Suc 0 + length (spec_tokenize rest'))) arr0"
      and ha': "heap st' ab = Some (x @ sfx')"
      and o': "\<forall>b. b \<noteq> bb \<and> b \<noteq> ab \<longrightarrow> heap st' b = heap st4 b"
      and e': "st' = st4\<lparr>heap := heap st', strtok_save := strtok_save st'\<rparr>"
      and ts': "token_seq (Ptr bb 0) 0 (Suc (length (spec_tokenize rest'))) st' =
          Inr (t1 # spec_tokenize rest')"
      by blast
    have A: "parseLine line st = Inr ((Ptr bb 0, length (spec_tokenize str)), st')"
      unfolding unf tk using run by (simp add: spec)
    have F: "st' = st\<lparr>heap := heap st', strtok_save := strtok_save st', next_block := Suc (Suc bb)\<rparr>"
      by (subst e', subst e4) simp
    show ?thesis
      using A ts' hb' len' len0 drop' ha' o' o4 F by (auto simp: spec)
  qed
  have main: "\<exists>st' arr' sfx.
      parseLine line st = Inr ((Ptr bb 0, length (spec_tokenize str)), st')
    \<and> token_seq (Ptr bb 0) 0 (length (spec_tokenize str)) st' = Inr (spec_tokenize str)
    \<and> heap st' bb = Some arr' \<and> length arr' = sizeof_ptr * h
    \<and> drop (sizeof_ptr * length (spec_tokenize str)) arr' =
        drop (sizeof_ptr * length (spec_tokenize str)) arr0
    \<and> heap st' ab = Some sfx
    \<and> (\<forall>b. b \<noteq> bb \<and> b \<noteq> ab \<longrightarrow> heap st' b = heap st b)
    \<and> st' = st\<lparr>heap := heap st', strtok_save := strtok_save st', next_block := Suc (Suc bb)\<rparr>"
  proof (cases "r1 = []")
    case True
    define st4 where "st4 = st3\<lparr>strtok_save := Ptr ab (length str)\<rparr>"
    have tk: "strtok (Ptr ab 0) delims st3 = Inr (Null, st4)"
      using scan True by (simp add: st4_def)
    have spec: "spec_tokenize str = []"
      using True spec_tokenize_all_delims [of str] by (simp add: r1_def)
    have A: "parseLine line st = Inr ((Ptr bb 0, length (spec_tokenize str)), st4)"
      unfolding unf tk by (simp add: spec tok_loop.simps)
    have F: "st4 = st\<lparr>heap := heap st4, strtok_save := strtok_save st4, next_block := Suc (Suc bb)\<rparr>"
      by (subst st4_def, subst e3) (simp add: st4_def)
    show ?thesis
      using A hbb3 hab3 o3 F len0 by (auto simp: spec st4_def)
  next
    case ne1: False
    have hd1: "\<not> is_delim (hd r1)"
      using ne1 hd_dropWhile [of is_delim str] by (simp add: r1_def)
    have sp1: "spec_tokenize str = t1 # spec_tokenize r2"
      using spec_tokenize_skip [of str] spec_tokenize_token [OF ne1 hd1]
      by (simp add: r1_def t1_def r2_def)
    show ?thesis
    proof (cases "r2 = []")
      case True
      define st4 where "st4 = st3\<lparr>strtok_save := Ptr ab (length str)\<rparr>"
      have tk: "strtok (Ptr ab 0) delims st3 = Inr (Ptr ab (length ds), st4)"
        using scan ne1 True by (simp add: st4_def)
      show ?thesis
      proof (rule step [of st4 "map Byte str" "[]"])
        show "strtok (Ptr ab 0) delims st3 = Inr (Ptr ab (length ds), st4)" by (rule tk)
        show "heap st4 ab = Some (map Byte str @ map Byte [] @ [Byte NUL])"
          using hab3 by (simp add: st4_def)
        show "strtok_save st4 = Ptr ab (length (map Byte str))"
          by (simp add: st4_def)
        show "heap st4 bb = Some arr0" using hbb3 by (simp add: st4_def)
        show "\<forall>b. b \<noteq> bb \<and> b \<noteq> ab \<longrightarrow> heap st4 b = heap st b"
          using o3 by (simp add: st4_def)
        show "st4 = st\<lparr>heap := heap st4, strtok_save := strtok_save st4, next_block := Suc (Suc bb)\<rparr>"
          by (subst st4_def, subst e3) (simp add: st4_def)
        show "NUL \<notin> set []" by simp
        show "spec_tokenize str = t1 # spec_tokenize []" using sp1 True by simp
        show "length ds \<le> length (map Byte str)" by (simp add: rest)
        show "cstring_of (drop (length ds) (map Byte str)) = Some t1 \<or>
          ([] = [] \<and> drop (length ds) (map Byte str) = map Byte t1 \<and> NUL \<notin> set t1)"
          using nn1 True by (simp add: rest r1)
      qed
    next
      case ne2: False
      then obtain d r3 where r2c: "r2 = d # r3" by (cases r2) auto
      have dd: "is_delim d"
        using hd_dropWhile [of "\<lambda>c. \<not> is_delim c" r1] ne2 r2c by (simp add: r2_def)
      define st4 where "st4 = st3\<lparr>heap := (heap st3)(ab \<mapsto>
           ([] @ map Byte (ds @ t1) @ [Byte NUL]) @ map Byte (tl r2) @ [Byte NUL]),
         strtok_save := Ptr ab (Suc (length ([]::memval list) + length ds + length t1))\<rparr>"
      have tk: "strtok (Ptr ab 0) delims st3 = Inr (Ptr ab (length ds), st4)"
        using scan ne1 ne2 by (simp add: st4_def)
      show ?thesis
      proof (rule step [of st4 "map Byte (ds @ t1) @ [Byte NUL]" r3])
        show "strtok (Ptr ab 0) delims st3 = Inr (Ptr ab (length ds), st4)" by (rule tk)
        show "heap st4 ab = Some ((map Byte (ds @ t1) @ [Byte NUL]) @ map Byte r3 @ [Byte NUL])"
          by (simp add: st4_def r2c)
        show "strtok_save st4 = Ptr ab (length (map Byte (ds @ t1) @ [Byte NUL]))"
          by (simp add: st4_def)
        show "heap st4 bb = Some arr0" using hbb3 ne by (simp add: st4_def)
        show "\<forall>b. b \<noteq> bb \<and> b \<noteq> ab \<longrightarrow> heap st4 b = heap st b"
          using o3 by (simp add: st4_def)
        show "st4 = st\<lparr>heap := heap st4, strtok_save := strtok_save st4, next_block := Suc (Suc bb)\<rparr>"
          by (subst st4_def, subst e3) (simp add: st4_def)
        show "NUL \<notin> set r3" using nn1 r2c by simp
        show "spec_tokenize str = t1 # spec_tokenize r3"
          using sp1 spec_tokenize_delim [OF dd, of r3] by (simp add: r2c)
        show "length ds \<le> length (map Byte (ds @ t1) @ [Byte NUL])" by simp
        show "cstring_of (drop (length ds) (map Byte (ds @ t1) @ [Byte NUL])) = Some t1 \<or>
          (r3 = [] \<and> drop (length ds) (map Byte (ds @ t1) @ [Byte NUL]) = map Byte t1 \<and> NUL \<notin> set t1)"
          using nn1 cstring_of_bytes [of t1 "[]"] by simp
      qed
    qed
  qed
  then show ?thesis
    unfolding bb_def [symmetric] ab_def [symmetric] h_def [symmetric] arr0_def [symmetric] .
qed

lemma tok_loop_frame:
  assumes "tok_loop buffer token i st = Inr (n, st')"
    and "buffer = Ptr bb o1" and "strtok_save st = Ptr ab o2"
    and "b \<noteq> bb" and "b \<noteq> ab"
  shows "heap st' b = heap st b"
  using assms
proof (induction buffer token i st arbitrary: o2 rule: tok_loop.induct)
  case (1 buffer token i st)
  show ?case
  proof (cases "token = Null")
    case True
    then show ?thesis using "1.prems" by (simp add: tok_loop.simps)
  next
    case False
    from "1.prems"(1) False obtain st1 where sp: "store_ptr buffer i token st = Inr st1"
      by (subst (asm) tok_loop.simps) (auto split: sum.splits)
    from "1.prems"(1) False sp obtain token' st2 where tk: "strtok Null delims st1 = Inr (token', st2)"
      and run: "tok_loop buffer token' (Suc i) st2 = Inr (n, st')"
      by (subst (asm) tok_loop.simps) (auto split: sum.splits prod.splits)
    have h1: "heap st1 b = heap st b" and sv1: "strtok_save st1 = Ptr ab o2"
      using sp "1.prems"(2,3,4)
      by (auto simp: store_ptr_def Let_def split: option.splits if_splits)
    have "heap st2 b = heap st1 b \<and> (\<exists>o3. strtok_save st2 = Ptr ab o3)"
      using tk sv1 "1.prems"(5)
      by (auto simp: strtok_def Let_def store_byte_def split: sum.splits option.splits if_splits)
    then obtain o3 where h2: "heap st2 b = heap st1 b" and sv2: "strtok_save st2 = Ptr ab o3"
      by blast
    have "heap st' b = heap st2 b"
      using "1.IH" [OF False sp tk refl run "1.prems"(2) sv2 "1.prems"(4,5)] .
    then show ?thesis using h1 h2 by simp
  qed
qed

lemma sentinel_present:
  assumes hp: "heap st' bb = Some arr'"
    and len: "length arr' = sizeof_ptr * h"
    and dr: "drop (sizeof_ptr * n) arr' = drop (sizeof_ptr * n) (replicate h (Byte NUL) @ xs)"
    and z: "sizeof_ptr * Suc n \<le> h"
  shows "load_ptr (Ptr bb 0) n st' = Inr Null"
proof -
  have hh: "h \<le> sizeof_ptr * h"
    using sizeof_ptr_pos by simp
  have in_arr: "sizeof_ptr * Suc n \<le> length arr'"
    using z hh unfolding len by (rule le_trans)
  have "get_cell arr' n = take sizeof_ptr (drop (sizeof_ptr * n) (replicate h (Byte NUL) @ xs))"
    unfolding get_cell_def dr ..
  also have "\<dots> = replicate sizeof_ptr (Byte NUL)"
    using z by (simp add: min_def)
  finally show ?thesis
    using load_ptr_cell [OF hp in_arr] by simp
qed

lemma sentinel_absent:
  assumes hp: "heap st' bb = Some arr'"
    and len: "length arr' = sizeof_ptr * h"
    and dr: "drop (sizeof_ptr * n) arr' =
        drop (sizeof_ptr * n) (replicate h (Byte NUL) @ drop h (map j [0..<sizeof_ptr * h]))"
    and inside: "Suc n \<le> h"
    and k: "h \<le> k" "sizeof_ptr * n \<le> k" "k < sizeof_ptr * Suc n"
    and nz: "j k \<noteq> Byte NUL"
  shows "\<exists>p. load_ptr (Ptr bb 0) n st' = Inr p \<and> p \<noteq> Null"
proof -
  let ?arr0 = "replicate h (Byte NUL) @ drop h (map j [0..<sizeof_ptr * h])"
  have in_arr: "sizeof_ptr * Suc n \<le> length arr'"
    unfolding len using inside by (rule mult_le_mono2)
  have kk: "k < sizeof_ptr * h"
    using k(3) inside by (meson less_le_trans mult_le_mono2)
  have "drop h (map j [0..<sizeof_ptr * h]) ! (k - h) = map j [0..<sizeof_ptr * h] ! (h + (k - h))"
    using kk k(1) sizeof_ptr_pos by (intro nth_drop) simp
  then have a0: "?arr0 ! k = j k"
    using k(1) kk by (simp add: nth_append)
  have l0: "length ?arr0 = sizeof_ptr * h"
    using kk k(1) by simp
  have "get_cell arr' n ! (k - sizeof_ptr * n) = drop (sizeof_ptr * n) arr' ! (k - sizeof_ptr * n)"
    unfolding get_cell_def using k by simp
  also have "\<dots> = drop (sizeof_ptr * n) ?arr0 ! (k - sizeof_ptr * n)"
    by (simp only: dr)
  also have "\<dots> = ?arr0 ! (sizeof_ptr * n + (k - sizeof_ptr * n))"
    using k(2) kk l0 by (intro nth_drop) linarith
  also have "\<dots> = ?arr0 ! k"
    using k(2) by simp
  finally have "get_cell arr' n ! (k - sizeof_ptr * n) = j k"
    using a0 by simp
  moreover have "replicate sizeof_ptr (Byte NUL) ! (k - sizeof_ptr * n) = Byte NUL"
    using k by simp
  ultimately have "get_cell arr' n \<noteq> replicate sizeof_ptr (Byte NUL)"
    using nz by metis
  then have "decode_ptr (get_cell arr' n) \<noteq> Null"
    by (simp add: decode_ptr_Null_iff)
  then show ?thesis
    using load_ptr_cell [OF hp in_arr] by simp
qed

section \<open>Argument vectors and dispatch\<close>

lemma token_seq_Suc_ok:
  assumes "token_seq args i (Suc n) st = Inr ts"
  shows "\<exists>p s ss. load_ptr args i st = Inr p \<and> load_cstring p st = Inr s
      \<and> token_seq args (Suc i) n st = Inr ss \<and> ts = s # ss \<and> p \<noteq> Null"
proof -
  from assms obtain p where p: "load_ptr args i st = Inr p"
    by (cases "load_ptr args i st") auto
  from assms p obtain s where s: "load_cstring p st = Inr s"
    by (cases "load_cstring p st") auto
  from assms p s obtain ss where ss: "token_seq args (Suc i) n st = Inr ss"
    by (cases "token_seq args (Suc i) n st") auto
  have "p \<noteq> Null" using s by (auto simp: load_cstring_def)
  then show ?thesis using assms p s ss by auto
qed

lemma load_argv_append:
  assumes "token_seq args i n st = Inr ts"
  shows "load_argv args i st =
     (case load_argv args (i + n) st of Inl e \<Rightarrow> Inl e | Inr rest \<Rightarrow> Inr (ts @ rest))"
  using assms
proof (induction n arbitrary: i ts)
  case 0
  then show ?case by (simp split: sum.splits)
next
  case (Suc n)
  from token_seq_Suc_ok [OF Suc.prems] obtain p s ss where
    p: "load_ptr args i st = Inr p" and s: "load_cstring p st = Inr s"
    and ss: "token_seq args (Suc i) n st = Inr ss" and ts: "ts = s # ss" and pn: "p \<noteq> Null"
    by blast
  show ?case
    by (subst load_argv.simps) (simp add: p s pn Suc.IH [OF ss] ts split: sum.splits)
qed

lemma load_argv_tokens:
  assumes "token_seq args i n st = Inr ts" and "load_ptr args (i + n) st = Inr Null"
  shows "load_argv args i st = Inr ts"
proof -
  have "load_argv args (i + n) st = Inr []"
    by (subst load_argv.simps) (simp add: assms(2))
  then show ?thesis using load_argv_append [OF assms(1)] by simp
qed

lemma load_argv_wild:
  assumes "token_seq args i n st = Inr ts" and "load_ptr args (i + n) st = Inr Wild"
  shows "load_argv args i st = Inl BadLoad"
proof -
  have "load_argv args (i + n) st = Inl BadLoad"
    by (subst load_argv.simps) (simp add: assms(2) load_cstring_def)
  then show ?thesis using load_argv_append [OF assms(1)] by simp
qed

lemma load_argv_heap_cong:
  "heap st' = heap st \<Longrightarrow> load_argv args i st' = load_argv args i st"
proof (induction args i st rule: load_argv.induct)
  case (1 args i st)
  note hp = "1.prems"
  have lp: "load_ptr args i st' = load_ptr args i st"
    using hp by (rule load_ptr_heap_cong)
  have lc: "\<And>a. load_cstring a st' = load_cstring a st"
    using hp by (rule load_cstring_heap_cong)
  show ?case
  proof (cases "load_ptr args i st")
    case (Inl e)
    then show ?thesis
      by (subst load_argv.simps, subst (2) load_argv.simps) (simp add: lp)
  next
    case (Inr a)
    show ?thesis
    proof (cases "a = Null")
      case True
      then show ?thesis using Inr
        by (subst load_argv.simps, subst (2) load_argv.simps) (simp add: lp)
    next
      case False
      show ?thesis
      proof (cases "load_cstring a st")
        case (Inl e)
        then show ?thesis using Inr False
          by (subst load_argv.simps, subst (2) load_argv.simps) (simp add: lp lc)
      next
        case str: (Inr str)
        have "load_argv args (Suc i) st' = load_argv args (Suc i) st"
          using "1.IH" [OF Inr False str hp] .
        then show ?thesis
          using Inr False str
          by (subst load_argv.simps, subst (2) load_argv.simps) (simp add: lp lc)
      qed
    qed
  qed
qed

lemma token_seq_heap_cong:
  "heap st' = heap st \<Longrightarrow> token_seq args i n st' = token_seq args i n st"
  by (induction n arbitrary: i)
    (simp_all add: load_ptr_heap_cong [of st' st] load_cstring_heap_cong [of st' st]
       cong: sum.case_cong)

lemma echo_loop_prints:
  assumes "load_argv args i st = Inr as"
  shows "echo_loop args i st = Inr (printf (echo_text as) st)"
  using assms
proof (induction as arbitrary: i st)
  case Nil
  from Nil have "load_ptr args i st = Inr Null"
    by (subst (asm) load_argv.simps) (auto split: sum.splits if_splits)
  then show ?case
    by (subst echo_loop.simps) (simp add: echo_text_def)
next
  case (Cons a as)
  from Cons.prems obtain p where p: "load_ptr args i st = Inr p" and pn: "p \<noteq> Null"
    and s: "load_cstring p st = Inr a" and r: "load_argv args (Suc i) st = Inr as"
    by (subst (asm) load_argv.simps) (auto split: sum.splits if_splits)
  have "load_argv args (Suc i) (printf (a @ '' '') st) = Inr as"
    using r load_argv_heap_cong [of "printf (a @ '' '') st" st] by simp
  from Cons.IH [OF this] show ?case
    by (subst echo_loop.simps) (simp add: p pn s printf_printf echo_text_def)
qed

lemma executeCommand_empty:
  "load_ptr args 0 st = Inr Null \<Longrightarrow> executeCommand args st = Return 1 st"
  by (simp add: executeCommand_def)

lemma executeCommand_dispatch:
  assumes "load_argv args 0 st = Inr (name # as)"
  shows "executeCommand args st =
     (case find_builtin name 0 of
        Some i \<Rightarrow> (builtin_pointers ! i) args st
      | None \<Rightarrow> startProcess args st)"
    and "load_argv args 1 st = Inr as"
proof -
  from assms obtain p where p: "load_ptr args 0 st = Inr p" and pn: "p \<noteq> Null"
    and s: "load_cstring p st = Inr name" and r: "load_argv args (Suc 0) st = Inr as"
    by (subst (asm) load_argv.simps) (auto split: sum.splits if_splits)
  show "executeCommand args st =
     (case find_builtin name 0 of
        Some i \<Rightarrow> (builtin_pointers ! i) args st
      | None \<Rightarrow> startProcess args st)"
    using p pn s by (simp add: executeCommand_def)
  show "load_argv args 1 st = Inr as" using r by simp
qed

lemma find_builtin_echo: "find_builtin ''echo'' 0 = Some 2"
  by (simp add: find_builtin.simps num_builtins_def builtin_commands_def)

lemma find_builtin_ls: "find_builtin ''ls'' 0 = None"
  by (simp add: find_builtin.simps num_builtins_def builtin_commands_def)

lemma find_builtin_exit: "find_builtin ''exit'' 0 = Some 3"
  by (simp add: find_builtin.simps num_builtins_def builtin_commands_def)

lemma startProcess_child:
  assumes "fork_results st = 0 # fr" and "load_argv args 0 st = Inr (name # as)"
  shows "startProcess args st =
     (if exec_env st name
      then ExecImage name (name # as)
             (st\<lparr>trace := trace st @ [SysFork], fork_results := fr, pid := 0\<rparr>)
      else ProcExit 1
             (perror ''simple-shell''
                (st\<lparr>trace := trace st @ [SysFork], fork_results := fr, pid := 0\<rparr>)))"
proof -
  let ?st1 = "st\<lparr>trace := trace st @ [SysFork], fork_results := fr, pid := 0\<rparr>"
  have hp: "heap ?st1 = heap st" by simp
  from assms(2) obtain p where p: "load_ptr args 0 st = Inr p" and pn: "p \<noteq> Null"
    and s: "load_cstring p st = Inr name"
    by (subst (asm) load_argv.simps) (auto split: sum.splits if_splits)
  have p1: "load_ptr args 0 ?st1 = Inr p"
    using p load_ptr_heap_cong [OF hp] by simp
  have s1: "load_cstring p ?st1 = Inr name"
    using s load_cstring_heap_cong [OF hp] by simp
  have a1: "load_argv args 0 ?st1 = Inr (name # as)"
    using assms(2) load_argv_heap_cong [OF hp] by simp
  have ex: "execvp p args ?st1 =
      (if exec_env st name then ExecImage name (name # as) ?st1 else Return (- 1) ?st1)"
    by (simp add: execvp_def s1 a1)
  show ?thesis
    using assms(1) p1 ex by (simp add: startProcess_def fork_def Let_def)
qed

lemma parse_argv:
  assumes "line = Ptr lb off" and "lb < next_block st"
    and "load_cstring line st = Inr str"
    and "length str < buffer_size st"
    and "sizeof_ptr * Suc (length (spec_tokenize str)) \<le> buffer_size st div 2"
  shows "\<exists>buffer st'.
      parseLine line st = Inr ((buffer, length (spec_tokenize str)), st')
    \<and> load_argv buffer 0 st' = Inr (spec_tokenize str)
    \<and> st' = st\<lparr>heap := heap st', strtok_save := strtok_save st',
               next_block := Suc (Suc (next_block st))\<rparr>"
proof -
  let ?n = "length (spec_tokenize str)" and ?h = "buffer_size st div 2"
  have cap: "?n \<le> ?h"
    using assms(4) by (rule cap_from_length)
  from parseLine_correct [OF assms(1,2,3) cap] obtain st' arr' sfx where
    run: "parseLine line st = Inr ((Ptr (next_block st) 0, ?n), st')"
    and ts: "token_seq (Ptr (next_block st) 0) 0 ?n st' = Inr (spec_tokenize str)"
    and hp: "heap st' (next_block st) = Some arr'"
    and len: "length arr' = sizeof_ptr * ?h"
    and dr: "drop (sizeof_ptr * ?n) arr' =
        drop (sizeof_ptr * ?n)
          (replicate ?h (Byte NUL) @
           drop ?h (map (junk st (next_block st)) [0..<sizeof_ptr * ?h]))"
    and e: "st' = st\<lparr>heap := heap st', strtok_save := strtok_save st',
               next_block := Suc (Suc (next_block st))\<rparr>"
    by blast
  have "load_ptr (Ptr (next_block st) 0) (0 + ?n) st' = Inr Null"
    using sentinel_present [OF hp len dr assms(5)] by simp
  from load_argv_tokens [OF ts this] run e show ?thesis by blast
qed

lemma parse_argv_frame:
  assumes "line = Ptr lb off" and "lb < next_block st"
    and "load_cstring line st = Inr str"
    and "length str < buffer_size st"
    and "sizeof_ptr * Suc (length (spec_tokenize str)) \<le> buffer_size st div 2"
  shows "\<exists>st'.
      parseLine line st = Inr ((Ptr (next_block st) 0, length (spec_tokenize str)), st')
    \<and> load_argv (Ptr (next_block st) 0) 0 st' = Inr (spec_tokenize str)
    \<and> heap st' (next_block st) \<noteq> None
    \<and> (\<forall>b. b \<noteq> next_block st \<and> b \<noteq> Suc (next_block st) \<longrightarrow> heap st' b = heap st b)
    \<and> st' = st\<lparr>heap := heap st', strtok_save := strtok_save st',
               next_block := Suc (Suc (next_block st))\<rparr>"
proof -
  let ?n = "length (spec_tokenize str)" and ?h = "buffer_size st div 2"
  have cap: "?n \<le> ?h"
    using assms(4) by (rule cap_from_length)
  from parseLine_correct [OF assms(1,2,3) cap] obtain st' arr' sfx where
    run: "parseLine line st = Inr ((Ptr (next_block st) 0, ?n), st')"
    and ts: "token_seq (Ptr (next_block st) 0) 0 ?n st' = Inr (spec_tokenize str)"
    and hp: "heap st' (next_block st) = Some arr'"
    and len: "length arr' = sizeof_ptr * ?h"
    and dr: "drop (sizeof_ptr * ?n) arr' =
        drop (sizeof_ptr * ?n)
          (replicate ?h (Byte NUL) @
           drop ?h (map (junk st (next_block st)) [0..<sizeof_ptr * ?h]))"
    and fr: "\<forall>b. b \<noteq> next_block st \<and> b \<noteq> Suc (next_block st) \<longrightarrow> heap st' b = heap st b"
    and e: "st' = st\<lparr>heap := heap st', strtok_save := strtok_save st',
               next_block := Suc (Suc (next_block st))\<rparr>"
    by blast
  have "load_ptr (Ptr (next_block st) 0) (0 + ?n) st' = Inr Null"
    using sentinel_present [OF hp len dr assms(5)] by simp
  from load_argv_tokens [OF ts this] run e hp fr show ?thesis by auto
qed

lemma child_argv_within_bound:
  assumes "line = Ptr lb off" and "lb < next_block st"
    and "load_cstring line st = Inr str"
    and "length str < buffer_size st"
    and "sizeof_ptr * Suc (length (spec_tokenize str)) \<le> buffer_size st div 2"
    and "spec_tokenize str = name # as" and "find_builtin name 0 = None"
    and "fork_results st = 0 # fr" and "exec_env st name"
  shows "exec_argv (execute_line line st) = Some (name, spec_tokenize str)"
proof -
  from parse_argv_frame [OF assms(1-5)] obtain st' where
    run: "parseLine line st = Inr ((Ptr (next_block st) 0, length (spec_tokenize str)), st')"
    and av: "load_argv (Ptr (next_block st) 0) 0 st' = Inr (name # as)"
    and e: "st' = st\<lparr>heap := heap st', strtok_save := strtok_save st',
               next_block := Suc (Suc (next_block st))\<rparr>"
    unfolding assms(6) by blast
  have fk: "fork_results st' = 0 # fr" and ex: "exec_env st' name"
    using fields_kept(2,3) [OF e] assms(8,9) by simp_all
  have "executeCommand (Ptr (next_block st) 0) st' = startProcess (Ptr (next_block st) 0) st'"
    using executeCommand_dispatch(1) [OF av] by (simp add: assms(7))
  also have "\<dots> = ExecImage name (name # as)
      (st'\<lparr>trace := trace st' @ [SysFork], fork_results := fr, pid := 0\<rparr>)"
    using startProcess_child [OF fk av] ex by simp
  finally show ?thesis
    by (simp add: execute_line_def run assms(6))
qed

section \<open>The line reader and the wait loop\<close>

lemma readLine_eof:
  assumes "stdin st = []"
  shows "readLine st =
     Inr (Ptr (next_block st) 0,
          st\<lparr>heap := (heap st)(next_block st \<mapsto> map (junk st (next_block st)) [0..<buffer_size st]),
             next_block := Suc (next_block st)\<rparr>)"
  using assms by (simp add: readLine_def malloc_def getline_def Let_def)

lemma next_line_part:
  "chunk \<noteq> [] \<Longrightarrow> fst (next_line chunk) \<noteq> []"
  by (auto simp: next_line_def split: list.splits)

lemma grown_ge: "n \<le> grown n needed"
  by (simp add: grown_def)

lemma grown_fits: "needed \<le> grown n needed"
  by (simp add: grown_def)

lemma getdelim_loop_grows:
  "getdelim_loop chunks l n = (line, n', rest) \<Longrightarrow> n \<le> n'"
proof (induction chunks arbitrary: l n)
  case Nil
  then show ?case by simp
next
  case (Cons chunk chunks)
  show ?case
  proof (cases "chunk = [] \<or> newline \<in> set chunk")
    case True
    with Cons.prems show ?thesis
      using grown_ge [of n "length l + length (fst (next_line chunk)) + 1"]
      by (auto simp: Let_def split: if_splits)
  next
    case False
    define n1 where "n1 = grown n (length l + length (fst (next_line chunk)) + 1)"
    from False Cons.prems
    have "getdelim_loop chunks (l @ fst (next_line chunk)) n1 = (line, n', rest)"
      by (simp add: Let_def n1_def)
    then have "n1 \<le> n'" by (rule Cons.IH)
    moreover have "n \<le> n1" unfolding n1_def by (rule grown_ge)
    ultimately show ?thesis by simp
  qed
qed

lemma getdelim_loop_fits:
  "getdelim_loop chunks l n = (line, n', rest) \<Longrightarrow>
     length l < n \<or> (chunks \<noteq> [] \<and> hd chunks \<noteq> []) \<Longrightarrow> length line < n'"
proof (induction chunks arbitrary: l n)
  case Nil
  then show ?case by simp
next
  case (Cons chunk chunks)
  show ?case
  proof (cases "chunk = []")
    case True
    with Cons.prems show ?thesis by simp
  next
    case False
    define n1 where "n1 = grown n (length l + length (fst (next_line chunk)) + 1)"
    have fit: "length (l @ fst (next_line chunk)) < n1"
      using grown_fits [of "length l + length (fst (next_line chunk)) + 1" n]
      by (simp add: n1_def)
    show ?thesis
    proof (cases "newline \<in> set chunk")
      case True
      with False Cons.prems(1) have "line = l @ fst (next_line chunk)" and "n' = n1"
        by (simp_all add: Let_def n1_def)
      with fit show ?thesis by simp
    next
      case nonl: False
      with False Cons.prems(1)
      have rec: "getdelim_loop chunks (l @ fst (next_line chunk)) n1 = (line, n', rest)"
        by (simp add: Let_def n1_def)
      have dis: "length (l @ fst (next_line chunk)) < n1 \<or> (chunks \<noteq> [] \<and> hd chunks \<noteq> [])"
        using fit by blast
      from Cons.IH [OF rec dis] show ?thesis .
    qed
  qed
qed

lemma readLine_reads:
  assumes "stdin st = chunk # chunks" and "chunk \<noteq> []"
    and "getdelim_loop (stdin st) [] (buffer_size st) = (line, n', rest)"
  shows "\<exists>st'. readLine st = Inr (Ptr (next_block st) 0, st')
    \<and> load_cstring (Ptr (next_block st) 0) st' = Inr (takeWhile (\<lambda>c. c \<noteq> NUL) line)
    \<and> length line < buffer_size st'
    \<and> buffer_size st \<le> buffer_size st'
    \<and> buffer_size st' = n'
    \<and> next_block st' = Suc (next_block st)
    \<and> stdin st' = rest
    \<and> (\<forall>b. b \<noteq> next_block st \<longrightarrow> heap st' b = heap st b)
    \<and> st' = st\<lparr>heap := heap st', next_block := Suc (next_block st),
               buffer_size := buffer_size st', stdin := stdin st'\<rparr>"
proof -
  define nb where "nb = next_block st"
  define n where "n = buffer_size st"
  define needed where "needed = length line + 1"
  define ms where "ms = map (junk st nb) [0..<n]"
  define ms1 where "ms1 = (if n' > n then take n' ms @ map (junk st nb) [length ms..<n'] else ms)"
  define st' where "st' = st\<lparr>heap := (heap st)(nb \<mapsto> map Byte line @ Byte NUL # drop needed ms1),
      next_block := Suc nb, buffer_size := n', stdin := rest\<rparr>"
  have grows: "n \<le> n'"
    using getdelim_loop_grows [OF assms(3)] by (simp add: n_def)
  have "length line < n'"
    using getdelim_loop_fits [OF assms(3)] assms(1,2) by simp
  then have fits: "needed \<le> n'"
    by (simp add: needed_def)
  have len1: "length ms1 = n'"
    using grows by (auto simp: ms1_def ms_def)
  have rl: "readLine st = Inr (Ptr nb 0, st')"
    using assms fits len1
    by (cases "n' > n")
      (auto simp: readLine_def malloc_def getline_def Let_def st'_def ms1_def
         needed_def ms_def n_def nb_def)
  have lc: "load_cstring (Ptr nb 0) st' = Inr (takeWhile (\<lambda>c. c \<noteq> NUL) line)"
    by (simp add: load_cstring_def st'_def cstring_of_bytes_upto)
  have "length line < n'" using fits by (simp add: needed_def)
  then show ?thesis
    using rl lc grows
    unfolding nb_def [symmetric] n_def [symmetric]
    by (intro exI [of _ st']) (simp add: st'_def)
qed

lemma next_line_long:
  "next_line (replicate n (CHR ''a'') @ [newline]) = (replicate n (CHR ''a'') @ [newline], [])"
  by (simp add: next_line_def newline_def dropWhile_append takeWhile_append)

lemma next_line_no_newline:
  "next_line (replicate n (CHR ''a'')) = (replicate n (CHR ''a''), [])"
  by (simp add: next_line_def newline_def)

text \<open>A line of 161 bytes that one read delivers leaves \<open>buffer_size\<close> at 162.\<close>

lemma buffer_size_grows:
  "(case readLine (initial_state [replicate 160 (CHR ''a'') @ [newline]] jnk dir cd_env forks ex_env waits) of
      Inl e \<Rightarrow> False
    | Inr (line, st') \<Rightarrow> buffer_size st' = 162)"
proof -
  let ?l = "replicate 160 (CHR ''a'') @ [newline]"
  let ?st = "initial_state [?l] jnk dir cd_env forks ex_env waits"
  have in0: "stdin ?st = ?l # []" and ne: "?l \<noteq> []"
    by (simp_all add: initial_state_def)
  have g: "getdelim_loop (stdin ?st) [] (buffer_size ?st) = (?l, 162, [])"
    by (simp add: initial_state_def next_line_long Let_def grown_def)
  from readLine_reads [OF in0 ne g] show ?thesis
    by auto
qed

text \<open>The buffer grows chunk by chunk: a line of 201 bytes that arrives in two reads of
  100 and 101 bytes leaves \<open>buffer_size\<close> at 320, not at 202.\<close>

lemma buffer_size_grows_by_chunk:
  "(case readLine (initial_state [replicate 100 (CHR ''a''), replicate 100 (CHR ''a'') @ [newline]]
        jnk dir cd_env forks ex_env waits) of
      Inl e \<Rightarrow> False
    | Inr (line, st') \<Rightarrow> buffer_size st' = 320)"
proof -
  let ?c = "replicate 100 (CHR ''a'')"
  let ?l = "replicate 100 (CHR ''a'') @ [newline]"
  let ?st = "initial_state [?c, ?l] jnk dir cd_env forks ex_env waits"
  have in0: "stdin ?st = ?c # [?l]" and ne: "?c \<noteq> []"
    by (simp_all add: initial_state_def)
  have nn: "newline \<notin> set ?c"
    by (simp add: newline_def)
  have g: "getdelim_loop (stdin ?st) [] (buffer_size ?st) = (?c @ ?l, 320, [])"
    using nn by (simp add: initial_state_def next_line_long next_line_no_newline Let_def grown_def)
  from readLine_reads [OF in0 ne g] show ?thesis
    by auto
qed

lemma wait_loop_stops:
  assumes "\<forall>s \<in> set stops. \<not> WIFEXITED s \<and> \<not> WIFSIGNALED s"
    and "\<not> WIFEXITED s0 \<and> \<not> WIFSIGNALED s0"
    and "WIFEXITED f \<or> WIFSIGNALED f"
    and "wait_events st = stops @ f # later"
  shows "wait_loop s0 st =
     Return () (st\<lparr>wait_events := later,
                  trace := trace st @ replicate (Suc (length stops)) (SysWaitpid (pid st))\<rparr>)"
  using assms
proof (induction stops arbitrary: s0 st)
  case Nil
  then show ?case
    by (subst wait_loop.simps) (auto simp: waitpid_def Let_def wait_loop.simps [of f])
next
  case (Cons a stops)
  have "wait_loop s0 st = wait_loop a (st\<lparr>trace := trace st @ [SysWaitpid (pid st)], wait_events := stops @ f # later\<rparr>)"
    using Cons.prems by (subst wait_loop.simps) (simp add: waitpid_def Let_def)
  also have "\<dots> = Return () (st\<lparr>wait_events := later,
                  trace := trace st @ replicate (Suc (length (a # stops))) (SysWaitpid (pid st))\<rparr>)"
    using Cons.prems by (subst Cons.IH) (auto simp: replicate_append_same)
  finally show ?case .
qed

lemma wait_loop_blocks:
  assumes "\<forall>s \<in> set stops. \<not> WIFEXITED s \<and> \<not> WIFSIGNALED s"
    and "\<not> WIFEXITED s0 \<and> \<not> WIFSIGNALED s0"
    and "wait_events st = stops"
  shows "wait_loop s0 st =
     Blocked (st\<lparr>wait_events := [],
                  trace := trace st @ replicate (Suc (length stops)) (SysWaitpid (pid st))\<rparr>)"
  using assms
proof (induction stops arbitrary: s0 st)
  case Nil
  then show ?case
    by (subst wait_loop.simps) (auto simp: waitpid_def Let_def)
next
  case (Cons a stops)
  have "wait_loop s0 st = wait_loop a (st\<lparr>trace := trace st @ [SysWaitpid (pid st)], wait_events := stops\<rparr>)"
    using Cons.prems by (subst wait_loop.simps) (simp add: waitpid_def Let_def)
  also have "\<dots> = Blocked (st\<lparr>wait_events := [],
                  trace := trace st @ replicate (Suc (length (a # stops))) (SysWaitpid (pid st))\<rparr>)"
    using Cons.prems by (subst Cons.IH) (auto simp: replicate_append_same)
  finally show ?case .
qed

section \<open>The example states\<close>

lemma line_state_facts:
  "NUL \<notin> set l \<Longrightarrow> load_cstring (Ptr 0 0) (line_state l bs jnk) = Inr l"
  "0 < next_block (line_state l bs jnk)"
  "buffer_size (line_state l bs jnk) = bs"
  "junk (line_state l bs jnk) = jnk"
  "next_block (line_state l bs jnk) = 1"
  using cstring_of_bytes [of l "[]"] by (simp_all add: line_state_def load_cstring_def)

lemma spec_tokenize_example:
  "spec_tokenize (''  echo   a  b '' @ [newline]) = [''echo'', ''a'', ''b'']"
  by (simp add: spec_tokenize_def is_delim_def newline_def)

lemma spec_tokenize_ten:
  "spec_tokenize ten_tokens = [''a'', ''b'', ''c'', ''d'', ''e'', ''f'', ''g'', ''h'', ''i'', ''j'']"
  by (simp add: spec_tokenize_def is_delim_def newline_def ten_tokens_def)

lemma length_ten: "length (spec_tokenize ten_tokens) = 10"
  by (simp add: spec_tokenize_ten)

lemma ten_no_NUL: "NUL \<notin> set ten_tokens"
  by (simp add: ten_tokens_def NUL_def)

lemma spec_tokenize_five: "spec_tokenize five_tokens = [''ls'', ''a'', ''b'', ''c'', ''d'']"
  by (simp add: spec_tokenize_def is_delim_def newline_def five_tokens_def)

lemma two_arg_argv:
  assumes "NUL \<notin> set c" and "NUL \<notin> set a"
  shows "load_argv (Ptr 0 0) 0 (two_arg_state c a) = Inr [c, a]"
    and "load_argv (Ptr 0 0) 1 (two_arg_state c a) = Inr [a]"
proof -
  let ?st = "two_arg_state c a"
  let ?arr = "map (Frag 1 0) [0..<sizeof_ptr] @ map (Frag 1 (Suc (length c))) [0..<sizeof_ptr] @
      replicate sizeof_ptr (Byte NUL)"
  have h0: "heap ?st 0 = Some ?arr"
    by (simp add: two_arg_state_def)
  have h1: "heap ?st 1 = Some (([] @ map Byte c @ [Byte NUL]) @ map Byte a @ Byte NUL # [])"
    by (simp add: two_arg_state_def)
  have c0: "get_cell ?arr 0 = map (Frag 1 0) [0..<sizeof_ptr]"
    and c1: "get_cell ?arr 1 = map (Frag 1 (Suc (length c))) [0..<sizeof_ptr]"
    and c2: "get_cell ?arr 2 = replicate sizeof_ptr (Byte NUL)"
    by (simp_all add: get_cell_def)
  have p0: "load_ptr (Ptr 0 0) 0 ?st = Inr (Ptr 1 0)"
    using load_ptr_cell [OF h0, of 0] c0 by simp
  have p1: "load_ptr (Ptr 0 0) (Suc 0) ?st = Inr (Ptr 1 (Suc (length c)))"
    using load_ptr_cell [OF h0, of 1] c1 by simp
  have p2: "load_ptr (Ptr 0 0) (Suc (Suc 0)) ?st = Inr Null"
    using load_ptr_cell [OF h0, of 2] c2 by (simp add: numeral_2_eq_2)
  have s0: "load_cstring (Ptr (Suc 0) 0) ?st = Inr c"
    using assms(1) by (simp add: load_cstring_def two_arg_state_def cstring_of_bytes)
  have s1: "load_cstring (Ptr (Suc 0) (Suc (length c))) ?st = Inr a"
    using load_cstring_at [OF h1 assms(2)] by simp
  have a2: "load_argv (Ptr 0 0) (Suc (Suc 0)) ?st = Inr []"
    by (subst load_argv.simps) (simp add: p2)
  have a1: "load_argv (Ptr 0 0) (Suc 0) ?st = Inr [a]"
    by (subst load_argv.simps) (simp add: p1 s1 a2)
  show "load_argv (Ptr 0 0) 1 ?st = Inr [a]"
    using a1 by simp
  show "load_argv (Ptr 0 0) 0 ?st = Inr [c, a]"
    by (subst load_argv.simps) (simp add: p0 s0 a1)
qed

lemma one_arg_argv:
  assumes "NUL \<notin> set c"
  shows "load_argv (Ptr 0 0) 0 (one_arg_state c) = Inr [c]"
    and "load_argv (Ptr 0 0) 1 (one_arg_state c) = Inr []"
proof -
  let ?st = "one_arg_state c"
  let ?arr = "map (Frag 1 0) [0..<sizeof_ptr] @ replicate sizeof_ptr (Byte NUL)"
  have h0: "heap ?st 0 = Some ?arr"
    by (simp add: one_arg_state_def)
  have c0: "get_cell ?arr 0 = map (Frag 1 0) [0..<sizeof_ptr]"
    and c1: "get_cell ?arr 1 = replicate sizeof_ptr (Byte NUL)"
    by (simp_all add: get_cell_def)
  have p0: "load_ptr (Ptr 0 0) 0 ?st = Inr (Ptr 1 0)"
    using load_ptr_cell [OF h0, of 0] c0 by simp
  have p1: "load_ptr (Ptr 0 0) (Suc 0) ?st = Inr Null"
    using load_ptr_cell [OF h0, of 1] c1 by simp
  have s0: "load_cstring (Ptr (Suc 0) 0) ?st = Inr c"
    using assms(1) by (simp add: load_cstring_def one_arg_state_def cstring_of_bytes)
  have a1: "load_argv (Ptr 0 0) (Suc 0) ?st = Inr []"
    by (subst load_argv.simps) (simp add: p1)
  show "load_argv (Ptr 0 0) 1 ?st = Inr []"
    using a1 by simp
  show "load_argv (Ptr 0 0) 0 ?st = Inr [c]"
    by (subst load_argv.simps) (simp add: p0 s0 a1)
qed

lemma stale_cell5:
  "get_cell (replicate 40 (Byte NUL) @ drop 40 (map (stale_junk 1) [0..<sizeof_ptr * 40])) 5 =
     map (Frag 0 0) [0..<sizeof_ptr]"
  by (simp add: get_cell_def sizeof_ptr_def stale_junk_def take_map drop_map)
    (simp add: upt_rec numeral_eq_Suc)

lemma stale_cell6:
  "get_cell (replicate 40 (Byte NUL) @ drop 40 (map (stale_junk 1) [0..<sizeof_ptr * 40])) 6 =
     replicate sizeof_ptr (Byte NUL)"
  by (simp add: get_cell_def sizeof_ptr_def stale_junk_def take_map drop_map)
    (simp add: numeral_eq_Suc)

section \<open>Runs of the main loop\<close>

text \<open>At the end of input, with zero-filled fresh memory, one more turn of the loop leads
  to the same situation: the loop never ends.\<close>

lemma eof_loop:
  assumes "stdin st = []" and "junk st = (\<lambda>b i. Byte NUL)" and "80 \<le> buffer_size st"
  shows "loop_body fuel 1 tokens st = None"
  using assms
proof (induction fuel arbitrary: st tokens)
  case 0
  show ?case by (simp add: loop_body.simps)
next
  case (Suc fuel)
  define nb where "nb = next_block st"
  define st1 where "st1 = st\<lparr>heap := (heap st)(nb \<mapsto> map (junk st nb) [0..<buffer_size st]),
      next_block := Suc nb\<rparr>"
  have rl: "readLine st = Inr (Ptr nb 0, st1)"
    using readLine_eof [OF Suc.prems(1)] by (simp add: st1_def nb_def)
  have nb1: "next_block st1 = Suc nb" and bs1: "buffer_size st1 = buffer_size st"
    and j1: "junk st1 = junk st" and in1: "stdin st1 = []"
    using Suc.prems(1) by (simp_all add: st1_def)
  have h1: "heap st1 nb = Some (map (\<lambda>i. Byte NUL) [0..<buffer_size st])"
    using Suc.prems(2) by (simp add: st1_def)
  have lc: "load_cstring (Ptr nb 0) st1 = Inr []"
    using h1 Suc.prems(3) by (simp add: load_cstring_def cstring_of_zeros)
  have lt: "nb < next_block st1" by (simp add: nb1)
  have cap: "length (spec_tokenize []) \<le> buffer_size st1 div 2" by simp
  from parseLine_correct [OF refl lt lc cap] obtain st' arr' sfx where
    run: "parseLine (Ptr nb 0) st1 = Inr ((Ptr (Suc nb) 0, 0), st')"
    and hp: "heap st' (Suc nb) = Some arr'"
    and len: "length arr' = sizeof_ptr * (buffer_size st1 div 2)"
    and dr: "drop (sizeof_ptr * 0) arr' =
        drop (sizeof_ptr * 0)
          (replicate (buffer_size st1 div 2) (Byte NUL) @
           drop (buffer_size st1 div 2)
             (map (junk st1 (Suc nb)) [0..<sizeof_ptr * (buffer_size st1 div 2)]))"
    and fr: "\<forall>b. b \<noteq> Suc nb \<and> b \<noteq> Suc (Suc nb) \<longrightarrow> heap st' b = heap st1 b"
    and e: "st' = st1\<lparr>heap := heap st', strtok_save := strtok_save st',
               next_block := Suc (Suc (Suc nb))\<rparr>"
    unfolding nb1 by (auto simp: spec_tokenize_Nil)
  have z: "sizeof_ptr * Suc 0 \<le> buffer_size st1 div 2"
    using Suc.prems(3) by (simp add: sizeof_ptr_def bs1)
  have "load_ptr (Ptr (Suc nb) 0) 0 st' = Inr Null"
    using sentinel_present [OF hp len dr z] .
  then have ex: "executeCommand (Ptr (Suc nb) 0) st' = Return 1 st'"
    by (rule executeCommand_empty)
  let ?st4 = "printf prompt st'"
  have h4: "heap ?st4 nb = Some (map (\<lambda>i. Byte NUL) [0..<buffer_size st])"
    using fr h1 by simp
  define st5 where "st5 = ?st4\<lparr>heap := (heap ?st4)(nb := None)\<rparr>"
  have f1: "free (Ptr nb 0) ?st4 = Inr st5"
    using h4 by (simp add: free_def st5_def)
  define st6 where "st6 = st5\<lparr>heap := (heap st5)(Suc nb := None)\<rparr>"
  have f2: "free (Ptr (Suc nb) 0) st5 = Inr st6"
    using hp by (simp add: free_def st6_def st5_def)
  have k: "stdin st' = []" "junk st' = (\<lambda>b i. Byte NUL)" "80 \<le> buffer_size st'"
    using fields_kept(4,5,6) [OF e] in1 j1 bs1 Suc.prems(2,3) by simp_all
  have k6: "stdin st6 = []" "junk st6 = (\<lambda>b i. Byte NUL)" "80 \<le> buffer_size st6"
    using k by (simp_all add: st6_def st5_def printf_def)
  have "loop_body (Suc fuel) 1 tokens st = loop_body fuel 1 (Ptr (Suc nb) 0) st6"
    by (subst loop_body.simps) (simp add: rl run ex f1 f2)
  also have "\<dots> = None"
    using Suc.IH [OF k6] .
  finally show ?case .
qed

text \<open>The loop does end on the line \<^verbatim>\<open>exit\<close>: the process then exits with
  status 0, having printed the prompt twice and a newline.\<close>

lemma main_exit:
  "\<exists>st'. main 1 (initial_state [''exit'' @ [newline]] jnk dir cd_env forks ex_env waits) =
       Some (ProcExit 0 st')
     \<and> stdout st' = prompt @ prompt @ [newline]"
proof -
  let ?l = "''exit'' @ [newline]"
  define st0 where "st0 = printf prompt (initial_state [?l] jnk dir cd_env forks ex_env waits)"
  have in0: "stdin st0 = ?l # []" and nb0: "next_block st0 = 0" and bs0: "buffer_size st0 = 80"
    and out0: "stdout st0 = prompt"
    by (simp_all add: st0_def printf_def initial_state_def)
  have ne: "?l \<noteq> []" by simp
  have g: "getdelim_loop (stdin st0) [] (buffer_size st0) = (?l, 80, [])"
    unfolding in0 bs0 by (simp add: next_line_def newline_def Let_def grown_def)
  from readLine_reads [OF in0 ne g] obtain st1 where
    rl: "readLine st0 = Inr (Ptr 0 0, st1)"
    and lc: "load_cstring (Ptr 0 0) st1 = Inr ?l"
    and lt: "length ?l < buffer_size st1"
    and bs1: "80 \<le> buffer_size st1"
    and nb1: "next_block st1 = Suc 0"
    and e1: "st1 = st0\<lparr>heap := heap st1, next_block := Suc (next_block st0),
               buffer_size := buffer_size st1, stdin := stdin st1\<rparr>"
    unfolding nb0 bs0 by (auto simp: NUL_def newline_def)
  have out1: "stdout st1 = prompt"
    by (subst e1) (simp add: out0)
  have sp: "spec_tokenize ?l = [''exit'']"
    by (simp add: spec_tokenize_def is_delim_def newline_def)
  have z: "sizeof_ptr * Suc (length (spec_tokenize ?l)) \<le> buffer_size st1 div 2"
    unfolding sp using bs1 by (simp add: sizeof_ptr_def)
  have lt1: "0 < next_block st1" by (simp add: nb1)
  from parse_argv_frame [OF refl lt1 lc lt z, unfolded sp nb1] obtain st2 where
    run: "parseLine (Ptr 0 0) st1 = Inr ((Ptr (Suc 0) 0, length [''exit'']), st2)"
    and av: "load_argv (Ptr (Suc 0) 0) 0 st2 = Inr [''exit'']"
    and hb: "heap st2 (Suc 0) \<noteq> None"
    and fr: "\<forall>b. b \<noteq> Suc 0 \<and> b \<noteq> Suc (Suc 0) \<longrightarrow> heap st2 b = heap st1 b"
    and e2: "st2 = st1\<lparr>heap := heap st2, strtok_save := strtok_save st2,
               next_block := Suc (Suc (Suc 0))\<rparr>"
    by blast
  have out2: "stdout st2 = prompt"
    using fields_kept(1) [OF e2] out1 by simp
  have ex: "executeCommand (Ptr (Suc 0) 0) st2 = Return 0 st2"
    using executeCommand_dispatch(1) [OF av]
    by (simp add: find_builtin_exit builtin_pointers_def simpleShellExit_def)
  have h0: "heap st1 0 \<noteq> None"
    using lc by (auto simp: load_cstring_def split: option.splits)
  let ?st4 = "printf prompt st2"
  define st5 where "st5 = ?st4\<lparr>heap := (heap ?st4)(0 := None)\<rparr>"
  have f1: "free (Ptr 0 0) ?st4 = Inr st5"
    using h0 fr by (simp add: free_def st5_def)
  define st6 where "st6 = st5\<lparr>heap := (heap st5)(Suc 0 := None)\<rparr>"
  have f2: "free (Ptr (Suc 0) 0) st5 = Inr st6"
    using hb by (simp add: free_def st6_def st5_def)
  have out6: "stdout st6 = prompt @ prompt"
    using out2 by (simp add: st6_def st5_def printf_def)
  have "loop_body (Suc 0) 1 Wild st0 = loop_body 0 0 (Ptr (Suc 0) 0) st6"
    by (subst loop_body.simps) (simp add: rl run ex f1 f2)
  also have "\<dots> = Some (Return () (printf [newline] st6))"
    by (simp add: loop_body.simps)
  finally have "main 1 (initial_state [?l] jnk dir cd_env forks ex_env waits) =
      Some (ProcExit 0 (printf [newline] st6))"
    by (simp add: main_def mainLoop_def st0_def)
  moreover have "stdout (printf [newline] st6) = prompt @ prompt @ [newline]"
    using out6 by (simp add: printf_def)
  ultimately show ?thesis by blast
qed

text \<open>The line \<^verbatim>\<open>echo a b\<close>, parsed: the array holds the three tokens and the
  terminating \<open>NULL\<close>, and nothing has been printed.\<close>

lemma echo_line_parsed:
  "\<exists>buffer st'.
      parseLine (Ptr 0 0) (line_state (''echo a b'' @ [newline]) 80 x_junk) = Inr ((buffer, 3), st')
    \<and> load_argv buffer 0 st' = Inr [''echo'', ''a'', ''b'']
    \<and> stdout st' = []"
proof -
  let ?l = "''echo a b'' @ [newline]"
  let ?S = "line_state ?l 80 x_junk"
  have lc: "load_cstring (Ptr 0 0) ?S = Inr ?l"
    by (rule line_state_facts(1)) (simp add: NUL_def newline_def)
  have lt: "length ?l < buffer_size ?S"
    by (simp add: line_state_facts)
  have sp: "spec_tokenize ?l = [''echo'', ''a'', ''b'']"
    by (simp add: spec_tokenize_def is_delim_def newline_def)
  have n3: "length [''echo'', ''a'', ''b''] = 3"
    by simp
  have z: "sizeof_ptr * Suc (length (spec_tokenize ?l)) \<le> buffer_size ?S div 2"
    unfolding sp by (simp add: line_state_facts sizeof_ptr_def)
  from parse_argv [OF refl line_state_facts(2) lc lt z] obtain buffer st' where
    run: "parseLine (Ptr 0 0) ?S = Inr ((buffer, 3), st')"
    and av: "load_argv buffer 0 st' = Inr [''echo'', ''a'', ''b'']"
    and e: "st' = ?S\<lparr>heap := heap st', strtok_save := strtok_save st',
               next_block := Suc (Suc (next_block ?S))\<rparr>"
    unfolding sp n3 by blast
  have out: "stdout st' = []"
    using fields_kept(1) [OF e] by (simp add: line_state_def)
  show ?thesis
    using run av out by blast
qed

section \<open>The claims\<close>

subsection \<open>C1: end of input\<close>

text \<open>
  Claim C1 fails on the code. \<^verbatim>\<open>readLine\<close> drops the result of
  \<^verbatim>\<open>getline\<close> and returns the buffer, never \<open>NULL\<close>, so the loop cannot see
  the end of input: on an empty standard input (and zero-filled fresh memory) it parses the
  empty buffer, prints the prompt and reads again, whatever the fuel. The program never
  stops and never exits with status 0.
\<close>

theorem main_never_stops_at_eof:
  "main fuel (initial_state [] (\<lambda>b i. Byte NUL) dir cd_env forks ex_env waits) = None"
proof -
  let ?st = "printf prompt (initial_state [] (\<lambda>b i. Byte NUL) dir cd_env forks ex_env waits)"
  have "loop_body fuel 1 Wild ?st = None"
    by (rule eof_loop) (simp_all add: printf_def initial_state_def)
  then show ?thesis
    by (simp add: main_def mainLoop_def)
qed

subsection \<open>C2: the tokenizer\<close>

text \<open>
  Claim C2. For every line (a C string shorter than \<open>buffer_size\<close>, as
  \<^verbatim>\<open>getline\<close> delivers it), \<^verbatim>\<open>parseLine\<close> returns an array whose first
  \<open>num_tokens\<close> entries are, in order, the non-empty fields of the line split at spaces
  and newlines. A line of delimiters only has no tokens, and executing its array does
  nothing and returns 1, the continue status.
\<close>

theorem parseLine_tokenizes:
  assumes "line = Ptr lb off" and "lb < next_block st"
    and "load_cstring line st = Inr str"
    and "length str < buffer_size st" and "80 \<le> buffer_size st"
  shows "\<exists>buffer st'.
      parseLine line st = Inr ((buffer, length (spec_tokenize str)), st')
    \<and> token_seq buffer 0 (length (spec_tokenize str)) st' = Inr (spec_tokenize str)
    \<and> ((\<forall>c \<in> set str. is_delim c) \<longrightarrow>
         spec_tokenize str = [] \<and> executeCommand buffer st' = Return 1 st')"
proof -
  have cap: "length (spec_tokenize str) \<le> buffer_size st div 2"
    using assms(4) by (rule cap_from_length)
  from parseLine_correct [OF assms(1,2,3) cap] obtain st' arr' sfx where
    run: "parseLine line st = Inr ((Ptr (next_block st) 0, length (spec_tokenize str)), st')"
    and ts: "token_seq (Ptr (next_block st) 0) 0 (length (spec_tokenize str)) st' =
        Inr (spec_tokenize str)"
    and hp: "heap st' (next_block st) = Some arr'"
    and len: "length arr' = sizeof_ptr * (buffer_size st div 2)"
    and dr: "drop (sizeof_ptr * length (spec_tokenize str)) arr' =
        drop (sizeof_ptr * length (spec_tokenize str))
          (replicate (buffer_size st div 2) (Byte NUL) @
           drop (buffer_size st div 2)
             (map (junk st (next_block st)) [0..<sizeof_ptr * (buffer_size st div 2)]))"
    by blast
  have blank: "spec_tokenize str = [] \<and> executeCommand (Ptr (next_block st) 0) st' = Return 1 st'"
    if "\<forall>c \<in> set str. is_delim c"
  proof -
    have e: "spec_tokenize str = []"
      using that by (intro spec_tokenize_all_delims) simp
    have "sizeof_ptr * Suc 0 \<le> buffer_size st div 2"
      using assms(5) by (simp add: sizeof_ptr_def)
    then have "load_ptr (Ptr (next_block st) 0) 0 st' = Inr Null"
      using sentinel_present [OF hp len, of 0] dr e by simp
    then show ?thesis
      using e by (simp add: executeCommand_empty)
  qed
  show ?thesis
    using run ts blank by blast
qed

theorem parseLine_tokenizes_witness:
  "load_cstring (Ptr 0 0) (line_state (''  echo   a  b '' @ [newline]) 80 x_junk) =
      Inr (''  echo   a  b '' @ [newline])
   \<and> (\<exists>buffer st'.
      parseLine (Ptr 0 0) (line_state (''  echo   a  b '' @ [newline]) 80 x_junk) =
        Inr ((buffer, 3), st')
      \<and> token_seq buffer 0 3 st' = Inr [''echo'', ''a'', ''b''])
   \<and> (\<exists>buffer st'.
      parseLine (Ptr 0 0) (line_state ''   '' 80 x_junk) = Inr ((buffer, 0), st')
      \<and> token_seq buffer 0 0 st' = Inr []
      \<and> executeCommand buffer st' = Return 1 st')"
proof -
  let ?l = "''  echo   a  b '' @ [newline]"
  have l1: "load_cstring (Ptr 0 0) (line_state ?l 80 x_junk) = Inr ?l"
    by (simp add: load_cstring_def line_state_def NUL_def newline_def)
  have l2: "load_cstring (Ptr 0 0) (line_state ''   '' 80 x_junk) = Inr ''   ''"
    by (simp add: load_cstring_def line_state_def NUL_def)
  have d: "\<forall>c \<in> set ''   ''. is_delim c"
    by (simp add: is_delim_def)
  have e: "spec_tokenize ''   '' = []"
    by (simp add: spec_tokenize_def is_delim_def)
  have h1: "0 < next_block (line_state ?l 80 x_junk)"
    "length ?l < buffer_size (line_state ?l 80 x_junk)"
    "80 \<le> buffer_size (line_state ?l 80 x_junk)"
    by (simp_all add: line_state_def)
  have h2: "0 < next_block (line_state ''   '' 80 x_junk)"
    "length ''   '' < buffer_size (line_state ''   '' 80 x_junk)"
    "80 \<le> buffer_size (line_state ''   '' 80 x_junk)"
    by (simp_all add: line_state_def)
  have n3: "length [''echo'', ''a'', ''b''] = 3" and n0: "length ([]::string list) = 0"
    by simp_all
  note A = parseLine_tokenizes [OF refl h1(1) l1 h1(2) h1(3),
      unfolded spec_tokenize_example n3]
  note B = parseLine_tokenizes [OF refl h2(1) l2 h2(2) h2(3), unfolded e n0]
  have a: "\<exists>buffer st'.
      parseLine (Ptr 0 0) (line_state ?l 80 x_junk) = Inr ((buffer, 3), st')
      \<and> token_seq buffer 0 3 st' = Inr [''echo'', ''a'', ''b'']"
    using A by blast
  have b: "\<exists>buffer st'.
      parseLine (Ptr 0 0) (line_state ''   '' 80 x_junk) = Inr ((buffer, 0), st')
      \<and> token_seq buffer 0 0 st' = Inr []
      \<and> executeCommand buffer st' = Return 1 st'"
    using B d by blast
  show ?thesis using l1 a b by blast
qed

subsection \<open>C3: echo\<close>

text \<open>
  Claim C3 (as amended). \<^verbatim>\<open>echo\<close> prints every argument followed by one space,
  and then one newline: with no argument just the newline, and for the arguments
  \<open>a\<close> and \<open>b\<close> the five characters \<open>a\<close>, space, \<open>b\<close>, space and newline.
\<close>

theorem simpleShellEcho_prints:
  assumes "load_argv args 1 st = Inr as"
  shows "simpleShellEcho args st = Return 1 (printf (echo_text as @ [newline]) st)"
  using echo_loop_prints [OF assms] by (simp add: simpleShellEcho_def printf_printf)

theorem simpleShellEcho_prints_witness:
  "(\<exists>buffer st'.
      parseLine (Ptr 0 0) (line_state (''echo a b'' @ [newline]) 80 x_junk) = Inr ((buffer, 3), st')
    \<and> load_argv buffer 1 st' = Inr [''a'', ''b'']
    \<and> stdout st' = []
    \<and> simpleShellEcho buffer st' = Return 1 (printf (''a b '' @ [newline]) st')
    \<and> stdout_of (simpleShellEcho buffer st') = [CHR ''a'', CHR '' '', CHR ''b'', CHR '' '', newline]
    \<and> length (stdout_of (simpleShellEcho buffer st')) = 5)
   \<and> load_argv (Ptr 0 0) 1 (two_arg_state ''echo'' ''hi'') = Inr [''hi'']
   \<and> simpleShellEcho (Ptr 0 0) (two_arg_state ''echo'' ''hi'') =
       Return 1 (printf (''hi '' @ [newline]) (two_arg_state ''echo'' ''hi''))
   \<and> load_argv (Ptr 0 0) 1 (one_arg_state ''echo'') = Inr []
   \<and> simpleShellEcho (Ptr 0 0) (one_arg_state ''echo'') =
       Return 1 (printf [newline] (one_arg_state ''echo''))"
proof -
  have a: "load_argv (Ptr 0 0) 1 (two_arg_state ''echo'' ''hi'') = Inr [''hi'']"
    by (rule two_arg_argv(2)) (simp_all add: NUL_def)
  have b: "load_argv (Ptr 0 0) 1 (one_arg_state ''echo'') = Inr []"
    by (rule one_arg_argv(2)) (simp add: NUL_def)
  from echo_line_parsed obtain buffer st' where
    run: "parseLine (Ptr 0 0) (line_state (''echo a b'' @ [newline]) 80 x_junk) =
        Inr ((buffer, 3), st')"
    and av: "load_argv buffer 0 st' = Inr [''echo'', ''a'', ''b'']"
    and out: "stdout st' = []"
    by blast
  have c: "load_argv buffer 1 st' = Inr [''a'', ''b'']"
    using executeCommand_dispatch(2) [OF av] .
  have p: "simpleShellEcho buffer st' = Return 1 (printf (''a b '' @ [newline]) st')"
    using simpleShellEcho_prints [OF c] by (simp add: echo_text_def)
  have q: "stdout_of (simpleShellEcho buffer st') = [CHR ''a'', CHR '' '', CHR ''b'', CHR '' '', newline]"
    unfolding p by (simp add: printf_def out)
  have r: "length (stdout_of (simpleShellEcho buffer st')) = 5"
    unfolding q by simp
  have two: "\<exists>buffer st'.
      parseLine (Ptr 0 0) (line_state (''echo a b'' @ [newline]) 80 x_junk) = Inr ((buffer, 3), st')
    \<and> load_argv buffer 1 st' = Inr [''a'', ''b'']
    \<and> stdout st' = []
    \<and> simpleShellEcho buffer st' = Return 1 (printf (''a b '' @ [newline]) st')
    \<and> stdout_of (simpleShellEcho buffer st') = [CHR ''a'', CHR '' '', CHR ''b'', CHR '' '', newline]
    \<and> length (stdout_of (simpleShellEcho buffer st')) = 5"
    using run c out p q r by blast
  have rest: "load_argv (Ptr 0 0) 1 (two_arg_state ''echo'' ''hi'') = Inr [''hi'']
   \<and> simpleShellEcho (Ptr 0 0) (two_arg_state ''echo'' ''hi'') =
       Return 1 (printf (''hi '' @ [newline]) (two_arg_state ''echo'' ''hi''))
   \<and> load_argv (Ptr 0 0) 1 (one_arg_state ''echo'') = Inr []
   \<and> simpleShellEcho (Ptr 0 0) (one_arg_state ''echo'') =
       Return 1 (printf [newline] (one_arg_state ''echo''))"
    using a b simpleShellEcho_prints [OF a] simpleShellEcho_prints [OF b]
    by (simp add: echo_text_def)
  show ?thesis
    using two rest by blast
qed

text \<open>
  The command line \<^verbatim>\<open>echo a b\<close> prints the five characters \<open>a\<close>, space,
  \<open>b\<close>, space and newline, and not the four characters \<open>a\<close>, space, \<open>b\<close> and
  newline: the last argument, too, is followed by a space.
\<close>

theorem echo_output_counterexample:
  "stdout_of (execute_line (Ptr 0 0) (line_state (''echo a b'' @ [newline]) 80 x_junk)) =
     [CHR ''a'', CHR '' '', CHR ''b'', CHR '' '', newline]
   \<and> length (stdout_of (execute_line (Ptr 0 0) (line_state (''echo a b'' @ [newline]) 80 x_junk))) = 5
   \<and> stdout_of (execute_line (Ptr 0 0) (line_state (''echo a b'' @ [newline]) 80 x_junk)) \<noteq>
     [CHR ''a'', CHR '' '', CHR ''b'', newline]"
proof -
  let ?S = "line_state (''echo a b'' @ [newline]) 80 x_junk"
  from echo_line_parsed obtain buffer st' where
    run: "parseLine (Ptr 0 0) ?S = Inr ((buffer, 3), st')"
    and av: "load_argv buffer 0 st' = Inr [''echo'', ''a'', ''b'']"
    and out: "stdout st' = []"
    by blast
  have d1: "executeCommand buffer st' = simpleShellEcho buffer st'"
    using executeCommand_dispatch(1) [OF av]
    by (simp add: find_builtin_echo builtin_pointers_def)
  have d2: "simpleShellEcho buffer st' = Return 1 (printf (echo_text [''a'', ''b''] @ [newline]) st')"
    using echo_loop_prints [OF executeCommand_dispatch(2) [OF av]]
    by (simp add: simpleShellEcho_def printf_printf)
  have "execute_line (Ptr 0 0) ?S =
      Return 1 (printf (echo_text [''a'', ''b''] @ [newline]) st')"
    unfolding execute_line_def run using d1 d2 by simp
  then have o: "stdout_of (execute_line (Ptr 0 0) ?S) =
      [CHR ''a'', CHR '' '', CHR ''b'', CHR '' '', newline]"
    by (simp add: printf_def out echo_text_def)
  show ?thesis
    unfolding o by simp
qed

subsection \<open>C4: the argument vector of the child\<close>

text \<open>
  Claim C4 fails on the code for a line of five tokens when the fresh array is not zero
  beyond the 40 bytes that \<^verbatim>\<open>parseLine\<close> clears: entry 5 still holds what the
  memory held before, here a pointer to the line buffer, and the child receives it as a
  sixth argument.
\<close>

theorem stale_argument_passed:
  "spec_tokenize five_tokens = [''ls'', ''a'', ''b'', ''c'', ''d'']
   \<and> exec_argv (execute_line (Ptr 0 0) (line_state five_tokens 80 stale_junk)) =
       Some (''ls'', [''ls'', ''a'', ''b'', ''c'', ''d'', five_tokens])"
proof -
  let ?S = "line_state five_tokens 80 stale_junk"
  let ?arr0 = "replicate 40 (Byte NUL) @ drop 40 (map (stale_junk 1) [0..<sizeof_ptr * 40])"
  have nn: "NUL \<notin> set five_tokens"
    by (simp add: five_tokens_def NUL_def)
  have lc: "load_cstring (Ptr 0 0) ?S = Inr five_tokens"
    using nn by (rule line_state_facts(1))
  have cap: "length (spec_tokenize five_tokens) \<le> buffer_size ?S div 2"
    by (rule cap_from_length) (simp add: line_state_facts five_tokens_def)
  have n5: "length (spec_tokenize five_tokens) = 5"
    by (simp add: spec_tokenize_five)
  from parseLine_correct [OF refl line_state_facts(2) lc cap, unfolded n5]
  obtain st' arr' sfx where
    run: "parseLine (Ptr 0 0) ?S = Inr ((Ptr (next_block ?S) 0, 5), st')"
    and ts: "token_seq (Ptr (next_block ?S) 0) 0 5 st' = Inr (spec_tokenize five_tokens)"
    and hp: "heap st' (next_block ?S) = Some arr'"
    and len: "length arr' = sizeof_ptr * (buffer_size ?S div 2)"
    and dr: "drop (sizeof_ptr * 5) arr' =
        drop (sizeof_ptr * 5)
          (replicate (buffer_size ?S div 2) (Byte NUL) @
           drop (buffer_size ?S div 2)
             (map (junk ?S (next_block ?S)) [0..<sizeof_ptr * (buffer_size ?S div 2)]))"
    and fr: "\<forall>b. b \<noteq> next_block ?S \<and> b \<noteq> Suc (next_block ?S) \<longrightarrow> heap st' b = heap ?S b"
    and e: "st' = ?S\<lparr>heap := heap st', strtok_save := strtok_save st',
               next_block := Suc (Suc (next_block ?S))\<rparr>"
    by blast
  have hp1: "heap st' 1 = Some arr'" and len1: "length arr' = sizeof_ptr * 40"
    and dr1: "drop (sizeof_ptr * 5) arr' = drop (sizeof_ptr * 5) ?arr0"
    using hp len dr by (simp_all add: line_state_facts)
  have ts1: "token_seq (Ptr 1 0) 0 5 st' = Inr [''ls'', ''a'', ''b'', ''c'', ''d'']"
    using ts by (simp add: line_state_facts spec_tokenize_five)
  have h0: "heap st' 0 = Some ([] @ map Byte five_tokens @ Byte NUL # [])"
    using fr by (simp add: line_state_facts line_state_def)
  have c5: "get_cell arr' 5 = map (Frag 0 0) [0..<sizeof_ptr]"
    using get_cell_drop [OF dr1, of 5] stale_cell5 by simp
  have c6: "get_cell arr' 6 = replicate sizeof_ptr (Byte NUL)"
    using get_cell_drop [OF dr1, of 6] stale_cell6 by simp
  have p5: "load_ptr (Ptr 1 0) 5 st' = Inr (Ptr 0 0)"
    using load_ptr_cell [OF hp1, of 5] c5 by (simp add: len1)
  have p6: "load_ptr (Ptr 1 0) 6 st' = Inr Null"
    using load_ptr_cell [OF hp1, of 6] c6 by (simp add: len1)
  have s5: "load_cstring (Ptr 0 0) st' = Inr five_tokens"
    using load_cstring_at [OF h0 nn] by simp
  have a6: "load_argv (Ptr 1 0) 6 st' = Inr []"
    using p6 by (subst load_argv.simps) simp
  have a5: "load_argv (Ptr 1 0) 5 st' = Inr [five_tokens]"
    using p5 s5 a6 by (subst load_argv.simps) simp
  have av: "load_argv (Ptr 1 0) 0 st' = Inr (''ls'' # [''a'', ''b'', ''c'', ''d'', five_tokens])"
    using load_argv_append [OF ts1] a5 by simp
  have fk: "fork_results st' = 0 # []" and ex: "exec_env st' ''ls''"
    using fields_kept(2,3) [OF e] by (simp_all add: line_state_def)
  have "executeCommand (Ptr 1 0) st' = startProcess (Ptr 1 0) st'"
    using executeCommand_dispatch(1) [OF av] by (simp add: find_builtin_ls)
  also have "\<dots> = ExecImage ''ls'' (''ls'' # [''a'', ''b'', ''c'', ''d'', five_tokens])
      (st'\<lparr>trace := trace st' @ [SysFork], fork_results := [], pid := 0\<rparr>)"
    using startProcess_child [OF fk av] ex by simp
  finally have "execute_line (Ptr 0 0) ?S =
      ExecImage ''ls'' (''ls'' # [''a'', ''b'', ''c'', ''d'', five_tokens])
        (st'\<lparr>trace := trace st' @ [SysFork], fork_results := [], pid := 0\<rparr>)"
    unfolding execute_line_def run by (simp add: line_state_facts)
  then show ?thesis
    using spec_tokenize_five by simp
qed

subsection \<open>C5: waiting for the child\<close>

text \<open>
  Claim C5. When \<^verbatim>\<open>fork\<close> returns a child \<open>c\<close> to the parent, the parent records
  \<open>c\<close> in the global \<open>pid\<close> and calls \<^verbatim>\<open>waitpid\<close> on \<open>c\<close> again and again as
  long as the report is neither "exited" nor "signaled" (a "stopped" report is no end).
  At the first final report it resets \<open>pid\<close> to \<open>-1\<close> and returns 1, the continue
  status. If no final report ever comes it stays blocked, with \<open>pid\<close> still \<open>c\<close>.
\<close>

theorem startProcess_parent:
  assumes "fork_results st = c # forks" and "0 < c"
    and "\<forall>s \<in> set stops. \<not> WIFEXITED s \<and> \<not> WIFSIGNALED s"
    and "WIFEXITED f \<or> WIFSIGNALED f"
  shows "startProcess args (st\<lparr>wait_events := stops @ f # later\<rparr>) =
           Return 1 (st\<lparr>fork_results := forks, pid := - 1, wait_events := later,
                        trace := trace st @ SysFork # replicate (Suc (length stops)) (SysWaitpid c)\<rparr>)
       \<and> startProcess args (st\<lparr>wait_events := stops\<rparr>) =
           Blocked (st\<lparr>fork_results := forks, pid := c, wait_events := [],
                       trace := trace st @ SysFork # replicate (Suc (length stops)) (SysWaitpid c)\<rparr>)"
proof (cases stops)
  case Nil
  then show ?thesis
    using assms
    by (auto simp: startProcess_def fork_def waitpid_def Let_def wait_loop.simps [of f])
next
  case (Cons a stops')
  let ?st1 = "\<lambda>ev. st\<lparr>wait_events := ev, trace := trace st @ [SysFork], fork_results := forks, pid := c, trace := trace st @ [SysFork, SysWaitpid c], wait_events := ev\<rparr>"
  have a: "\<not> WIFEXITED a \<and> \<not> WIFSIGNALED a" and r: "\<forall>s \<in> set stops'. \<not> WIFEXITED s \<and> \<not> WIFSIGNALED s"
    using assms(3) Cons by auto
  have 1: "wait_loop a (?st1 (stops' @ f # later)) = Return () ((?st1 (stops' @ f # later))\<lparr>wait_events := later,
             trace := trace (?st1 (stops' @ f # later)) @ replicate (Suc (length stops')) (SysWaitpid (pid (?st1 (stops' @ f # later))))\<rparr>)"
    by (rule wait_loop_stops [OF r a assms(4)]) simp
  have 2: "wait_loop a (?st1 stops') = Blocked ((?st1 stops')\<lparr>wait_events := [],
             trace := trace (?st1 stops') @ replicate (Suc (length stops')) (SysWaitpid (pid (?st1 stops')))\<rparr>)"
    by (rule wait_loop_blocks [OF r a]) simp
  show ?thesis
    using assms(1,2) Cons 1 2
    by (simp add: startProcess_def fork_def waitpid_def Let_def replicate_append_same)
qed

theorem startProcess_parent_witness:
  "fork_results demo_env = [42] \<and> (0::int) < 42
   \<and> startProcess Null (demo_env\<lparr>wait_events := [WStopped 19, WStopped 19] @ WExited 0 # [WExited 3]\<rparr>) =
           Return 1 (demo_env\<lparr>fork_results := [], pid := - 1, wait_events := [WExited 3],
                        trace := trace demo_env @ SysFork # replicate (Suc (length [WStopped 19, WStopped 19])) (SysWaitpid 42)\<rparr>)
   \<and> startProcess Null (demo_env\<lparr>wait_events := [WStopped 19, WStopped 19]\<rparr>) =
           Blocked (demo_env\<lparr>fork_results := [], pid := 42, wait_events := [],
                       trace := trace demo_env @ SysFork # replicate (Suc (length [WStopped 19, WStopped 19])) (SysWaitpid 42)\<rparr>)"
  using startProcess_parent [of demo_env 42 "[]" "[WStopped 19, WStopped 19]" "WExited 0" Null "[WExited 3]"]
  by (simp add: demo_env_def initial_state_def)

subsection \<open>C6: the interrupt handler\<close>

text \<open>
  Claim C6. On an interrupt, in whatever state the process is, the handler prints the
  termination notice, sends the interrupt signal to the recorded child exactly when the
  global \<open>pid\<close> holds one (nothing is signalled when it is \<open>-1\<close>), and ends the process:
  the call does not return.
\<close>

theorem signalHandler_relays:
  "signalHandler SIGINT st =
     ProcExit 0
       (st\<lparr>stdout := stdout st @ newline # ''simple-shell terminated'' @ [newline],
           trace := trace st @ (if pid st \<noteq> - 1 then [SysKill (pid st) SIGINT] else [])\<rparr>)"
  by (simp add: signalHandler_def printf_def kill_def Let_def)

subsection \<open>C7: cd\<close>

text \<open>
  Claim C7. With no path argument \<^verbatim>\<open>cd\<close> does nothing and returns 1. With a path
  it calls \<^verbatim>\<open>chdir\<close>; when that fails it prints the error message, leaves the
  working directory as it was and returns 1, the continue status; when it succeeds the
  working directory is the new one.
\<close>

theorem simpleShellCd_contract:
  assumes "load_argv args 1 st = Inr as"
  shows "simpleShellCd args st =
     (case as of
        [] \<Rightarrow> Return 1 st
      | path # others \<Rightarrow>
          (case chdir_env st (cwd st) path of
             None \<Rightarrow>
               Return 1 (st\<lparr>trace := trace st @ [SysChdir path],
                            stdout := stdout st @ ''cd failed, check your path'' @ [newline]\<rparr>)
           | Some d \<Rightarrow> Return 1 (st\<lparr>trace := trace st @ [SysChdir path], cwd := d\<rparr>)))"
proof (cases as)
  case Nil
  with assms have "load_ptr args 1 st = Inr Null"
    by (subst (asm) load_argv.simps) (auto split: sum.splits if_splits)
  then show ?thesis using Nil by (simp add: simpleShellCd_def)
next
  case (Cons path others)
  with assms obtain p where p: "load_ptr args 1 st = Inr p" and pn: "p \<noteq> Null"
    and s: "load_cstring p st = Inr path"
    by (subst (asm) load_argv.simps) (auto split: sum.splits if_splits)
  show ?thesis
    using Cons p pn s
    by (cases "chdir_env st (cwd st) path")
      (simp_all add: simpleShellCd_def chdir_def Let_def printf_def)
qed

theorem simpleShellCd_contract_witness:
  "load_argv (Ptr 0 0) 1 (two_arg_state ''cd'' ''/nope'') = Inr [''/nope'']
   \<and> simpleShellCd (Ptr 0 0) (two_arg_state ''cd'' ''/nope'') =
       Return 1 ((two_arg_state ''cd'' ''/nope'')
         \<lparr>trace := [SysChdir ''/nope''],
          stdout := ''cd failed, check your path'' @ [newline]\<rparr>)
   \<and> cwd (two_arg_state ''cd'' ''/nope'') = ''/''
   \<and> load_argv (Ptr 0 0) 1 (one_arg_state ''cd'') = Inr []
   \<and> simpleShellCd (Ptr 0 0) (one_arg_state ''cd'') = Return 1 (one_arg_state ''cd'')"
proof -
  have a: "load_argv (Ptr 0 0) 1 (two_arg_state ''cd'' ''/nope'') = Inr [''/nope'']"
    by (rule two_arg_argv(2)) (simp_all add: NUL_def)
  have b: "load_argv (Ptr 0 0) 1 (one_arg_state ''cd'') = Inr []"
    by (rule one_arg_argv(2)) (simp add: NUL_def)
  have e: "chdir_env (two_arg_state ''cd'' ''/nope'') (cwd (two_arg_state ''cd'' ''/nope'')) ''/nope'' = None"
    "trace (two_arg_state ''cd'' ''/nope'') = []" "stdout (two_arg_state ''cd'' ''/nope'') = []"
    "cwd (two_arg_state ''cd'' ''/nope'') = ''/''"
    by (simp_all add: two_arg_state_def line_state_def)
  show ?thesis
    using a b e simpleShellCd_contract [OF a] simpleShellCd_contract [OF b]
    by simp
qed

subsection \<open>C8: the NULL entry after the tokens\<close>

text \<open>
  Claim C8 (as amended). \<^verbatim>\<open>parseLine\<close> clears \<open>buffer_size / 2\<close> bytes of the
  array, not \<open>buffer_size / 2\<close> entries. For a line with \<open>n\<close> tokens the entry at
  index \<open>n\<close> is \<open>NULL\<close> whenever that entry lies wholly inside the cleared bytes,
  \<open>(n + 1) * sizeof(char*) \<le> buffer_size / 2\<close>. When one of its bytes lies outside them and
  the fresh memory is not zero there, the entry is not \<open>NULL\<close>: no terminator is
  guaranteed.
\<close>

theorem parseLine_sentinel:
  assumes "line = Ptr lb off" and "lb < next_block st"
    and "load_cstring line st = Inr str"
    and "length str < buffer_size st"
  shows "\<exists>buffer st'.
      parseLine line st = Inr ((buffer, length (spec_tokenize str)), st')
    \<and> (sizeof_ptr * Suc (length (spec_tokenize str)) \<le> buffer_size st div 2 \<longrightarrow>
         load_ptr buffer (length (spec_tokenize str)) st' = Inr Null)
    \<and> (\<forall>k. Suc (length (spec_tokenize str)) \<le> buffer_size st div 2
            \<and> buffer_size st div 2 \<le> k
            \<and> sizeof_ptr * length (spec_tokenize str) \<le> k
            \<and> k < sizeof_ptr * Suc (length (spec_tokenize str))
            \<and> junk st (next_block st) k \<noteq> Byte NUL \<longrightarrow>
         load_ptr buffer (length (spec_tokenize str)) st' \<noteq> Inr Null)"
proof -
  let ?n = "length (spec_tokenize str)" and ?h = "buffer_size st div 2"
  have cap: "?n \<le> ?h"
    using assms(4) by (rule cap_from_length)
  from parseLine_correct [OF assms(1,2,3) cap] obtain st' arr' sfx where
    run: "parseLine line st = Inr ((Ptr (next_block st) 0, ?n), st')"
    and hp: "heap st' (next_block st) = Some arr'"
    and len: "length arr' = sizeof_ptr * ?h"
    and dr: "drop (sizeof_ptr * ?n) arr' =
        drop (sizeof_ptr * ?n)
          (replicate ?h (Byte NUL) @
           drop ?h (map (junk st (next_block st)) [0..<sizeof_ptr * ?h]))"
    by blast
  have present: "load_ptr (Ptr (next_block st) 0) ?n st' = Inr Null"
    if "sizeof_ptr * Suc ?n \<le> ?h"
    using sentinel_present [OF hp len dr that] .
  have absent: "load_ptr (Ptr (next_block st) 0) ?n st' \<noteq> Inr Null"
    if "Suc ?n \<le> ?h" "?h \<le> k" "sizeof_ptr * ?n \<le> k" "k < sizeof_ptr * Suc ?n"
      "junk st (next_block st) k \<noteq> Byte NUL" for k
    using sentinel_absent [OF hp len dr that] by auto
  show ?thesis
    using run present absent by blast
qed

theorem parseLine_sentinel_witness:
  "load_cstring (Ptr 0 0) (line_state ''echo a b'' 80 x_junk) = Inr ''echo a b''
   \<and> (\<exists>buffer st'.
        parseLine (Ptr 0 0) (line_state ''echo a b'' 80 x_junk) = Inr ((buffer, 3), st')
        \<and> load_ptr buffer 3 st' = Inr Null)
   \<and> (\<exists>buffer st'.
        parseLine (Ptr 0 0) (line_state ''a b c d e'' 80 x_junk) = Inr ((buffer, 5), st')
        \<and> load_ptr buffer 5 st' \<noteq> Inr Null)"
proof -
  let ?s1 = "line_state ''echo a b'' 80 x_junk" and ?s2 = "line_state ''a b c d e'' 80 x_junk"
  have lc1: "load_cstring (Ptr 0 0) ?s1 = Inr ''echo a b''"
    by (rule line_state_facts(1)) (simp add: NUL_def)
  have lc2: "load_cstring (Ptr 0 0) ?s2 = Inr ''a b c d e''"
    by (rule line_state_facts(1)) (simp add: NUL_def)
  have lt1: "length ''echo a b'' < buffer_size ?s1" and lt2: "length ''a b c d e'' < buffer_size ?s2"
    by (simp_all add: line_state_facts)
  have n1: "length (spec_tokenize ''echo a b'') = 3"
    and n2: "length (spec_tokenize ''a b c d e'') = 5"
    by (simp_all add: spec_tokenize_def is_delim_def newline_def)
  from parseLine_sentinel [OF refl line_state_facts(2) lc1 lt1, unfolded n1]
  have a: "\<exists>buffer st'. parseLine (Ptr 0 0) ?s1 = Inr ((buffer, 3), st')
        \<and> load_ptr buffer 3 st' = Inr Null"
    by (auto simp: line_state_facts sizeof_ptr_def)
  from parseLine_sentinel [OF refl line_state_facts(2) lc2 lt2, unfolded n2]
  obtain buffer st' where run: "parseLine (Ptr 0 0) ?s2 = Inr ((buffer, 5), st')"
    and absent: "\<forall>k. Suc 5 \<le> buffer_size ?s2 div 2
            \<and> buffer_size ?s2 div 2 \<le> k
            \<and> sizeof_ptr * 5 \<le> k
            \<and> k < sizeof_ptr * Suc 5
            \<and> junk ?s2 (next_block ?s2) k \<noteq> Byte NUL \<longrightarrow>
         load_ptr buffer 5 st' \<noteq> Inr Null"
    by blast
  have "load_ptr buffer 5 st' \<noteq> Inr Null"
    using absent [rule_format, of 40]
    by (simp add: line_state_facts sizeof_ptr_def x_junk_def NUL_def)
  then have b: "\<exists>buffer st'. parseLine (Ptr 0 0) ?s2 = Inr ((buffer, 5), st')
        \<and> load_ptr buffer 5 st' \<noteq> Inr Null"
    using run by blast
  show ?thesis using lc1 a b by blast
qed

text \<open>
  The bound \<open>n * sizeof(char*) < buffer_size / 2\<close> does not suffice when
  \<open>buffer_size / 2\<close> is not a multiple of the pointer size. With \<open>buffer_size = 162\<close>
  (the value \<^verbatim>\<open>getline\<close> leaves after a line of 161 bytes that one read
  delivers) 81 bytes are cleared;
  for ten tokens \<open>10 * 8 = 80 < 81\<close>, yet entry 10 occupies bytes 80 to 87, of which
  only byte 80 is cleared.
\<close>

theorem sentinel_bound_counterexample:
  "(case parseLine (Ptr 0 0) (line_state ten_tokens 162 x_junk) of
      Inl e \<Rightarrow> False
    | Inr ((buffer, n), st') \<Rightarrow>
        n = 10 \<and> n * sizeof_ptr < buffer_size (line_state ten_tokens 162 x_junk) div 2
        \<and> load_ptr buffer n st' \<noteq> Inr Null)"
proof -
  let ?st = "line_state ten_tokens 162 x_junk"
  have lc: "load_cstring (Ptr 0 0) ?st = Inr ten_tokens"
    using ten_no_NUL by (rule line_state_facts(1))
  have cap: "length (spec_tokenize ten_tokens) \<le> buffer_size ?st div 2"
    by (simp add: length_ten line_state_facts)
  from parseLine_correct [OF refl line_state_facts(2) lc cap, unfolded length_ten]
  obtain st' arr' sfx where
    run: "parseLine (Ptr 0 0) ?st = Inr ((Ptr (next_block ?st) 0, 10), st')"
    and hp: "heap st' (next_block ?st) = Some arr'"
    and len: "length arr' = sizeof_ptr * (buffer_size ?st div 2)"
    and dr: "drop (sizeof_ptr * 10) arr' =
        drop (sizeof_ptr * 10)
          (replicate (buffer_size ?st div 2) (Byte NUL) @
           drop (buffer_size ?st div 2)
             (map (junk ?st (next_block ?st)) [0..<sizeof_ptr * (buffer_size ?st div 2)]))"
    by blast
  have "\<exists>p. load_ptr (Ptr (next_block ?st) 0) 10 st' = Inr p \<and> p \<noteq> Null"
    by (rule sentinel_absent [OF hp len dr, where k = 85])
      (simp_all add: line_state_facts sizeof_ptr_def x_junk_def NUL_def)
  then show ?thesis
    using run by (auto simp: line_state_facts sizeof_ptr_def)
qed

subsection \<open>C9: the line is left as it was\<close>

text \<open>
  Claim C9. \<^verbatim>\<open>parseLine\<close> never modifies the line it is given: the scan that writes
  terminators runs on the duplicate made by \<^verbatim>\<open>strdup\<close>, so the block of the
  caller's line holds the same bytes, and the same string, after the call.
\<close>

theorem parseLine_preserves_line:
  assumes "parseLine line st = Inr (r, st')" and "line = Ptr lb off" and "lb < next_block st"
  shows "heap st' lb = heap st lb \<and> load_cstring line st' = load_cstring line st"
proof -
  define bb where "bb = next_block st"
  define st1 where "st1 = snd (malloc (sizeof_ptr * (buffer_size st div 2)) st)"
  have m: "malloc (sizeof_ptr * (buffer_size st div 2)) st = (Ptr bb 0, st1)"
    by (simp add: st1_def malloc_def bb_def Let_def)
  from assms(1) m obtain st2 where ms: "memset (Ptr bb 0) NUL (buffer_size st div 2) st1 = Inr st2"
    by (cases "memset (Ptr bb 0) NUL (buffer_size st div 2) st1") (auto simp: parseLine_def)
  from assms(1) m ms obtain args st3 where sd: "strdup line st2 = Inr (args, st3)"
    by (cases "strdup line st2") (auto simp: parseLine_def)
  from assms(1) m ms sd obtain token st4 where tk: "strtok args delims st3 = Inr (token, st4)"
    by (cases "strtok args delims st3") (auto simp: parseLine_def)
  from assms(1) m ms sd tk obtain i where run: "tok_loop (Ptr bb 0) token 0 st4 = Inr (i, st')"
    by (cases "tok_loop (Ptr bb 0) token 0 st4") (auto simp: parseLine_def)
  have ne: "lb \<noteq> bb" "lb \<noteq> Suc bb"
    using assms(3) by (simp_all add: bb_def)
  have h1: "heap st1 lb = heap st lb" and nb1: "next_block st1 = Suc bb"
    using ne by (simp_all add: st1_def malloc_def bb_def Let_def)
  have h2: "heap st2 lb = heap st1 lb" and nb2: "next_block st2 = Suc bb"
    using ms ne nb1 by (auto simp: memset_def split: option.splits if_splits)
  have args: "args = Ptr (Suc bb) 0" and h3: "heap st3 lb = heap st2 lb"
    using sd ne nb2 by (auto simp: strdup_def Let_def split: sum.splits)
  have "heap st4 lb = heap st3 lb \<and> (\<exists>o3. strtok_save st4 = Ptr (Suc bb) o3)"
    using tk ne unfolding args
    by (auto simp: strtok_def Let_def store_byte_def split: sum.splits option.splits if_splits)
  then obtain o3 where h4: "heap st4 lb = heap st3 lb" and sv4: "strtok_save st4 = Ptr (Suc bb) o3"
    by blast
  have h5: "heap st' lb = heap st4 lb"
    using tok_loop_frame [OF run refl sv4 ne] .
  have eq: "heap st' lb = heap st lb"
    using h1 h2 h3 h4 h5 by simp
  then show ?thesis
    by (simp add: load_cstring_def assms(2))
qed

theorem parseLine_preserves_line_witness:
  "\<exists>r st'. parseLine (Ptr 0 0) (line_state ''echo a b'' 80 x_junk) = Inr (r, st')
     \<and> heap st' 0 = heap (line_state ''echo a b'' 80 x_junk) 0
     \<and> load_cstring (Ptr 0 0) st' = Inr ''echo a b''"
proof -
  let ?s = "line_state ''echo a b'' 80 x_junk"
  have lc: "load_cstring (Ptr 0 0) ?s = Inr ''echo a b''"
    by (rule line_state_facts(1)) (simp add: NUL_def)
  have cap: "length (spec_tokenize ''echo a b'') \<le> buffer_size ?s div 2"
    by (rule cap_from_length) (simp add: line_state_facts)
  from parseLine_correct [OF refl line_state_facts(2) lc cap]
  obtain r st' where run: "parseLine (Ptr 0 0) ?s = Inr (r, st')"
    by blast
  from parseLine_preserves_line [OF run refl line_state_facts(2)] lc run
  show ?thesis by auto
qed

subsection \<open>C10: the exit status after an interrupt\<close>

text \<open>
  Claim C10. Termination by interrupt always ends the process with exit status 0, whether
  or not a child was recorded.
\<close>

theorem signalHandler_exit_status:
  "\<exists>st'. signalHandler sig_id st = ProcExit 0 st'"
  by (simp add: signalHandler_def Let_def)

end
